theory Spec2Isabelle
  imports Complex_Main "HOL-Library.Monad_Syntax"
begin

section \<open>Data model of the planner flow generator\<close>

text \<open>
  The embedding follows \<^verbatim>\<open>generateReactFlowData\<close> of
  \<^verbatim>\<open>src/components/planner/plannerFlowUtils.tsx\<close>.

  JavaScript numbers are IEEE binary64 values. The function is first given with exact
  arithmetic on rationals: that is enough for the statements about structure (which nodes
  and edges exist, which indices and identifiers they carry, which computations return) and
  for values that binary64 computes without rounding. The statements about quotients and
  sums of amounts depend on the rounding; for them, section \<open>Double arithmetic\<close> gives
  the loops that compute the amounts and the numbers of buildings again, with every
  arithmetic result rounded as binary64 rounds it.

  A division whose divisor is zero has no finite result in JavaScript (\<^verbatim>\<open>Infinity\<close> or
  \<^verbatim>\<open>NaN\<close>); the model makes it visible as \<open>None\<close>, so that "no division by zero
  happens" is the statement that a computation returns \<open>Some\<close>.
  Array indices and lengths are naturals.
\<close>

type_synonym OreQuality = string

definition normal :: OreQuality where
  "normal = ''normal''"

text \<open>
  \<^verbatim>\<open>ProductionNode\<close> is declared in \<^verbatim>\<open>./types\<close>; the record has the fields this
  function reads or writes. The additional fields of the launcher variant are only read by
  the markup of the label.
\<close>

record ProductionNode =
  buildingId :: string
  buildingName :: string
  recipeIndex :: nat
  outputItem :: string
  outputAmount :: rat
  buildingCount :: rat
  powerPerBuilding :: rat
  totalPower :: rat

record ProductionEdge =
  edge_from :: string
  edge_to :: string
  edge_itemId :: string
  edge_amount :: rat

text \<open>An element of the array \<^verbatim>\<open>expandedNodes\<close>.\<close>

record ExpandedEntry =
  node :: ProductionNode
  originalKey :: string
  sourceIndex :: "nat option"
  sourceCount :: "nat option"
  sourceQuality :: "OreQuality option"

text \<open>An element of the array \<^verbatim>\<open>expandedEdges\<close>.\<close>

record ExpandedEdge =
  fromIndex :: nat
  toIndex :: nat
  itemId :: string
  amount :: rat

text \<open>
  The two variables the loop over \<^verbatim>\<open>flowNodes\<close> mutates: the array
  \<^verbatim>\<open>expandedNodes\<close> and the \<^verbatim>\<open>Map\<close> \<^verbatim>\<open>nodeKeyToExpandedIndexes\<close>.
\<close>

record ExpandState =
  expandedNodes :: "ExpandedEntry list"
  nodeKeyToExpandedIndexes :: "string \<rightharpoonup> nat list"

text \<open>
  The plain data of a React Flow node: the markup of the label is replaced by the values it
  shows. Only the label of the launcher shows the total power of the graph.
\<close>

record NodeData =
  data_node :: ProductionNode
  data_sourceIndex :: "nat option"
  data_sourceCount :: "nat option"
  data_oreQuality :: "OreQuality option"
  data_totalPowerConsumption :: "rat option"

record RFNode =
  node_id :: string
  node_type :: string
  position :: "rat \<times> rat"
  node_data :: NodeData

record RFEdge =
  edge_id :: string
  source :: string
  target :: string
  edge_type :: string
  stroke :: string
  label :: string

record FlowData =
  nodes :: "RFNode list"
  edges :: "RFEdge list"

text \<open>
  The parameters of the call. The catalogue (\<^verbatim>\<open>buildings\<close>, \<^verbatim>\<open>corporations\<close>,
  \<^verbatim>\<open>levels\<close>) and \<^verbatim>\<open>items\<close> are opaque; \<^verbatim>\<open>oreSourcesByItem\<close> is an object
  used as a dictionary. The three callbacks are only attached to the markup.
\<close>

record ('c, 'i) FlowDataGenerationParams =
  targetItemId :: string
  targetAmount :: rat
  catalogue :: 'c
  items :: 'i
  oreSourcesByItem :: "string \<rightharpoonup> OreQuality list"

text \<open>
  What the function imports and calls but does not define: the production flow builder,
  the table \<^verbatim>\<open>ORE_QUALITY_RATES\<close>, the layout of \<^verbatim>\<open>dagre\<close> (from the node
  identifiers and the edges to a centre per identifier), \<^verbatim>\<open>getItemName\<close>,
  \<^verbatim>\<open>getItemColor\<close> and \<^verbatim>\<open>Number.prototype.toFixed(1)\<close>.
\<close>

record ('c, 'i) Externals =
  buildProductionFlow ::
    "string \<Rightarrow> rat \<Rightarrow> (string \<rightharpoonup> OreQuality) \<Rightarrow> 'c \<Rightarrow> ProductionNode list \<times> ProductionEdge list"
  ORE_QUALITY_RATES :: "OreQuality \<Rightarrow> rat"
  dagre_layout :: "string list \<Rightarrow> (string \<times> string) list \<Rightarrow> string \<Rightarrow> rat \<times> rat"
  getItemName :: "string \<Rightarrow> 'i \<Rightarrow> string"
  getItemColor :: "string \<Rightarrow> string"
  toFixed1 :: "rat \<Rightarrow> string"

section \<open>Numbers and strings\<close>

definition jsdiv :: "rat \<Rightarrow> rat \<Rightarrow> rat option" where
  "jsdiv a b = (if b = 0 then None else Some (a / b))"

definition Math_ceil :: "rat \<Rightarrow> rat" where
  "Math_ceil x = of_int \<lceil>x\<rceil>"

definition digit_char :: "nat \<Rightarrow> char" where
  "digit_char d = ''0123456789'' ! d"

text \<open>The decimal rendering of an index inside a template literal.\<close>

fun show_nat :: "nat \<Rightarrow> string" where
  "show_nat n = (if n < 10 then [digit_char n] else show_nat (n div 10) @ [digit_char (n mod 10)])"

declare show_nat.simps [simp del]

definition node_name :: "nat \<Rightarrow> string" where
  "node_name index = ''node_'' @ show_nat index"

section \<open>The first steps: target amount and base graph\<close>

definition validAmount :: "rat \<Rightarrow> rat" where
  "validAmount amt = (if amt > 0 then amt else 1)"

text \<open>
  \<^verbatim>\<open>Object.fromEntries(Object.entries(oreSourcesByItem).map(...))\<close>: one entry per
  entry of the argument, holding \<^verbatim>\<open>sources[0] ?? 'normal'\<close>.
\<close>

definition oreQualityByItem :: "(string \<rightharpoonup> OreQuality list) \<Rightarrow> (string \<rightharpoonup> OreQuality)" where
  "oreQualityByItem srcs =
     (\<lambda>item. case srcs item of
        None \<Rightarrow> None
      | Some sources \<Rightarrow> Some (case sources of [] \<Rightarrow> normal | q # _ \<Rightarrow> q))"

definition baseGraph ::
  "('c, 'i) Externals \<Rightarrow> ('c, 'i) FlowDataGenerationParams
     \<Rightarrow> ProductionNode list \<times> ProductionEdge list" where
  "baseGraph ext p =
     buildProductionFlow ext (targetItemId p) (validAmount (targetAmount p))
       (oreQualityByItem (oreSourcesByItem p)) (catalogue p)"

section \<open>Expansion of the nodes\<close>

definition getOreSources :: "(string \<rightharpoonup> OreQuality list) \<Rightarrow> string \<Rightarrow> OreQuality list" where
  "getOreSources srcs item =
     (case srcs item of
        None \<Rightarrow> [normal]
      | Some sources \<Rightarrow> if length sources > 0 then sources else [normal])"

definition nodeKey :: "ProductionNode \<Rightarrow> string" where
  "nodeKey n = buildingId n @ ''_'' @ show_nat (recipeIndex n) @ ''_'' @ outputItem n"

definition getIndexes :: "(string \<rightharpoonup> nat list) \<Rightarrow> string \<Rightarrow> nat list" where
  "getIndexes m k = (case m k of None \<Rightarrow> [] | Some indexes \<Rightarrow> indexes)"

text \<open>The body of \<^verbatim>\<open>sources.forEach((quality, sourceIndex) => ...)\<close>.\<close>

definition splitSource ::
  "(OreQuality \<Rightarrow> rat) \<Rightarrow> ProductionNode \<Rightarrow> string \<Rightarrow> rat \<Rightarrow> rat \<Rightarrow> nat
     \<Rightarrow> OreQuality \<Rightarrow> nat \<Rightarrow> ExpandState \<Rightarrow> ExpandState option" where
  "splitSource rates n key totalDemand share cnt quality srcIndex st =
     do {
       let outputRate = rates quality;
       count \<leftarrow> (if outputRate > 0 then jsdiv (totalDemand * share) outputRate else Some 0);
       let power = Math_ceil count * powerPerBuilding n;
       let splitNode = n\<lparr>outputAmount := outputRate, buildingCount := count, totalPower := power\<rparr>;
       let expandedIndex = length (expandedNodes st);
       let entry = \<lparr>node = splitNode, originalKey = key, sourceIndex = Some srcIndex,
                    sourceCount = Some cnt, sourceQuality = Some quality\<rparr>;
       let indexes = getIndexes (nodeKeyToExpandedIndexes st) key;
       Some \<lparr>expandedNodes = expandedNodes st @ [entry],
             nodeKeyToExpandedIndexes = (nodeKeyToExpandedIndexes st)(key \<mapsto> indexes @ [expandedIndex])\<rparr>
     }"

fun forEachSource ::
  "(OreQuality \<Rightarrow> rat) \<Rightarrow> ProductionNode \<Rightarrow> string \<Rightarrow> rat \<Rightarrow> rat \<Rightarrow> nat
     \<Rightarrow> OreQuality list \<Rightarrow> nat \<Rightarrow> ExpandState \<Rightarrow> ExpandState option" where
  "forEachSource rates n key totalDemand share cnt [] srcIndex st = Some st"
| "forEachSource rates n key totalDemand share cnt (quality # rest) srcIndex st =
     do {
       st' \<leftarrow> splitSource rates n key totalDemand share cnt quality srcIndex st;
       forEachSource rates n key totalDemand share cnt rest (Suc srcIndex) st'
     }"

text \<open>The body of \<^verbatim>\<open>flowNodes.forEach((node) => ...)\<close>.\<close>

definition expandNode ::
  "(OreQuality \<Rightarrow> rat) \<Rightarrow> (string \<rightharpoonup> OreQuality list) \<Rightarrow> ProductionNode
     \<Rightarrow> ExpandState \<Rightarrow> ExpandState option" where
  "expandNode rates srcs n st =
     (let key = nodeKey n in
      if buildingId n = ''ore_excavator'' then
        do {
          let sources = getOreSources srcs (outputItem n);
          let totalDemand = buildingCount n * outputAmount n;
          share \<leftarrow> (if length sources > 0 then jsdiv 1 (of_nat (length sources)) else Some 1);
          forEachSource rates n key totalDemand share (length sources) sources 0 st
        }
      else
        (let expandedIndex = length (expandedNodes st) in
         Some \<lparr>expandedNodes = expandedNodes st @
                 [\<lparr>node = n, originalKey = key, sourceIndex = None, sourceCount = None,
                   sourceQuality = None\<rparr>],
               nodeKeyToExpandedIndexes = (nodeKeyToExpandedIndexes st)(key \<mapsto> [expandedIndex])\<rparr>))"

fun expandNodes ::
  "(OreQuality \<Rightarrow> rat) \<Rightarrow> (string \<rightharpoonup> OreQuality list) \<Rightarrow> ProductionNode list
     \<Rightarrow> ExpandState \<Rightarrow> ExpandState option" where
  "expandNodes rates srcs [] st = Some st"
| "expandNodes rates srcs (n # ns) st =
     do { st' \<leftarrow> expandNode rates srcs n st; expandNodes rates srcs ns st' }"

definition initialState :: ExpandState where
  "initialState = \<lparr>expandedNodes = [], nodeKeyToExpandedIndexes = Map.empty\<rparr>"

section \<open>Distribution of the edges\<close>

text \<open>The two nested \<^verbatim>\<open>forEach\<close> loops that push onto \<^verbatim>\<open>expandedEdges\<close>.\<close>

definition pushPairs ::
  "ProductionEdge \<Rightarrow> rat \<Rightarrow> nat list \<Rightarrow> nat list \<Rightarrow> ExpandedEdge list \<Rightarrow> ExpandedEdge list" where
  "pushPairs e share fromIndexes toIndexes acc =
     fold (\<lambda>fromIdx acc1.
        fold (\<lambda>toIdx acc2.
           acc2 @ [\<lparr>fromIndex = fromIdx, toIndex = toIdx, itemId = edge_itemId e,
                    amount = edge_amount e * share\<rparr>])
          toIndexes acc1)
       fromIndexes acc"

text \<open>The body of \<^verbatim>\<open>flowEdges.forEach((edge) => ...)\<close>.\<close>

definition distributeEdge ::
  "(string \<rightharpoonup> nat list) \<Rightarrow> ProductionEdge \<Rightarrow> ExpandedEdge list \<Rightarrow> ExpandedEdge list option" where
  "distributeEdge m e acc =
     (let fromIndexes = getIndexes m (edge_from e);
          toIndexes = getIndexes m (edge_to e)
      in if length fromIndexes = 0 \<or> length toIndexes = 0 then Some acc
         else do {
           share \<leftarrow> jsdiv 1 (of_nat (length fromIndexes));
           Some (pushPairs e share fromIndexes toIndexes acc)
         })"

fun distributeEdges ::
  "(string \<rightharpoonup> nat list) \<Rightarrow> ProductionEdge list \<Rightarrow> ExpandedEdge list \<Rightarrow> ExpandedEdge list option" where
  "distributeEdges m [] acc = Some acc"
| "distributeEdges m (e # es) acc =
     do { acc' \<leftarrow> distributeEdge m e acc; distributeEdges m es acc' }"

section \<open>Assembly of the flow graph\<close>

definition totalPowerConsumption :: "ExpandedEntry list \<Rightarrow> rat" where
  "totalPowerConsumption entries = foldl (\<lambda>s entry. s + totalPower (node entry)) 0 entries"

definition reactFlowNode ::
  "(string \<Rightarrow> rat \<times> rat) \<Rightarrow> rat \<Rightarrow> nat \<Rightarrow> ExpandedEntry \<Rightarrow> RFNode" where
  "reactFlowNode pos powerSum index entry =
     (let nodeWithPosition = pos (node_name index);
          isLauncher = (buildingId (node entry) = ''orbital_cargo_launcher'');
          isOreExcavator = (buildingId (node entry) = ''ore_excavator'');
          oreQuality = (if isOreExcavator
                        then Some (case sourceQuality entry of None \<Rightarrow> normal | Some q \<Rightarrow> q)
                        else None)
      in \<lparr>node_id = node_name index, node_type = ''default'',
          position = (fst nodeWithPosition - 100, snd nodeWithPosition - 60),
          node_data = \<lparr>data_node = node entry, data_sourceIndex = sourceIndex entry,
                       data_sourceCount = sourceCount entry, data_oreQuality = oreQuality,
                       data_totalPowerConsumption =
                         (if isLauncher then Some (Math_ceil powerSum) else None)\<rparr>\<rparr>)"

definition reactFlowNodes ::
  "(string \<Rightarrow> rat \<times> rat) \<Rightarrow> ExpandedEntry list \<Rightarrow> RFNode list" where
  "reactFlowNodes pos entries =
     map (\<lambda>(index, entry). reactFlowNode pos (totalPowerConsumption entries) index entry)
       (zip [0..<length entries] entries)"

definition edgeId :: "ExpandedEdge \<Rightarrow> string" where
  "edgeId e = node_name (fromIndex e) @ ''-'' @ node_name (toIndex e) @ ''-'' @ itemId e"

definition reactFlowEdge :: "('c, 'i) Externals \<Rightarrow> 'i \<Rightarrow> ExpandedEdge \<Rightarrow> RFEdge" where
  "reactFlowEdge ext its e =
     \<lparr>edge_id = edgeId e, source = node_name (fromIndex e), target = node_name (toIndex e),
      edge_type = ''default'', stroke = getItemColor ext (itemId e),
      label = getItemName ext (itemId e) its @ '' ('' @ toFixed1 ext (amount e) @ ''/min)''\<rparr>"

text \<open>
  The last loop over \<^verbatim>\<open>expandedEdges\<close>, with the array \<^verbatim>\<open>reactFlowEdges\<close> and
  the set \<^verbatim>\<open>edgeIdSet\<close> as its state.
\<close>

fun dedupeEdges ::
  "('c, 'i) Externals \<Rightarrow> 'i \<Rightarrow> ExpandedEdge list \<Rightarrow> RFEdge list \<times> string set
     \<Rightarrow> RFEdge list \<times> string set" where
  "dedupeEdges ext its [] st = st"
| "dedupeEdges ext its (e # es) (out, edgeIdSet) =
     (if edgeId e \<in> edgeIdSet then dedupeEdges ext its es (out, edgeIdSet)
      else dedupeEdges ext its es (out @ [reactFlowEdge ext its e], insert (edgeId e) edgeIdSet))"

definition reactFlowEdges :: "('c, 'i) Externals \<Rightarrow> 'i \<Rightarrow> ExpandedEdge list \<Rightarrow> RFEdge list" where
  "reactFlowEdges ext its es = fst (dedupeEdges ext its es ([], {}))"

section \<open>The whole function\<close>

definition generateReactFlowData ::
  "('c, 'i) Externals \<Rightarrow> ('c, 'i) FlowDataGenerationParams \<Rightarrow> FlowData option" where
  "generateReactFlowData ext p =
     (let (flowNodes, flowEdges) = baseGraph ext p in
      do {
        st \<leftarrow> expandNodes (ORE_QUALITY_RATES ext) (oreSourcesByItem p) flowNodes initialState;
        expandedEdges \<leftarrow> distributeEdges (nodeKeyToExpandedIndexes st) flowEdges [];
        let pos = dagre_layout ext (map node_name [0..<length (expandedNodes st)])
                    (map (\<lambda>e. (node_name (fromIndex e), node_name (toIndex e))) expandedEdges);
        Some \<lparr>nodes = reactFlowNodes pos (expandedNodes st),
              edges = reactFlowEdges ext (items p) expandedEdges\<rparr>
      })"

section \<open>Double arithmetic\<close>

text \<open>
  The value of a binary64 operation is the exact result rounded to the nearest number with
  a significand of 53 bits, to the one with an even significand on a tie, with gradual
  underflow below \<open>2 ^ - 1022\<close>. \<open>scale a 0\<close> writes a magnitude \<open>a\<close> as \<open>m * 2 ^ e\<close>
  with \<open>m\<close> from \<open>2 ^ 52\<close> up to \<open>2 ^ 53\<close>, or with the exponent \<open>- 1074\<close> of the
  subnormal numbers and a smaller \<open>m\<close>; \<open>m\<close> is then rounded to an integer.
  Results beyond the largest finite double, which JavaScript turns into
  \<^verbatim>\<open>Infinity\<close>, are not modelled: the exponent is not bounded above.
\<close>

definition round_even :: "rat \<Rightarrow> int" where
  "round_even m =
     (let f = \<lfloor>m\<rfloor>; d = m - of_int f
      in if d < 1 / 2 then f else if 1 / 2 < d then f + 1 else if even f then f else f + 1)"

function scale :: "rat \<Rightarrow> int \<Rightarrow> rat \<times> int" where
  "scale a e =
     (if 2 ^ 53 \<le> a then scale (a / 2) (e + 1)
      else if a < 2 ^ 52 \<and> - 1074 < e then scale (a * 2) (e - 1)
      else (a, e))"
  by pat_completeness auto

termination
proof (relation "measure (\<lambda>(a, e). (if 2 ^ 53 \<le> a then nat \<lceil>a\<rceil> else 0) + nat (e + 1074))")
  show "wf (measure (\<lambda>(a, e). (if (2 :: rat) ^ 53 \<le> a then nat \<lceil>a\<rceil> else 0) + nat (e + 1074)))"
    by simp
next
  fix a :: rat and e :: int
  assume a: "2 ^ 53 \<le> a"
  have big: "(4 :: rat) \<le> a" using a by simp
  have "of_int \<lceil>a / 2\<rceil> < a / 2 + 1"
    using ceiling_correct [of "a / 2"] by linarith
  then have "of_int (\<lceil>a / 2\<rceil> + 1) < a" using big by simp
  then have "of_int (\<lceil>a / 2\<rceil> + 1) < (of_int \<lceil>a\<rceil> :: rat)"
    using le_of_int_ceiling [of a] by (rule less_le_trans)
  then have less: "\<lceil>a / 2\<rceil> + 1 < \<lceil>a\<rceil>" by (simp only: of_int_less_iff)
  have nonneg: "0 \<le> \<lceil>a / 2\<rceil>"
  proof -
    have "(0 :: rat) \<le> a / 2" using big by simp
    then have "(0 :: rat) \<le> of_int \<lceil>a / 2\<rceil>"
      using le_of_int_ceiling [of "a / 2"] by (rule order_trans)
    then show ?thesis by simp
  qed
  have halved: "nat \<lceil>a / 2\<rceil> + 1 < nat \<lceil>a\<rceil>" using less nonneg by linarith
  have "nat (e + 1 + 1074) \<le> nat (e + 1074) + 1" by simp
  moreover have "(if 2 ^ 53 \<le> a / 2 then nat \<lceil>a / 2\<rceil> else 0) \<le> nat \<lceil>a / 2\<rceil>" by simp
  ultimately have "(if 2 ^ 53 \<le> a / 2 then nat \<lceil>a / 2\<rceil> else 0) + nat (e + 1 + 1074)
      < nat \<lceil>a\<rceil> + nat (e + 1074)"
    using halved by linarith
  then show "((a / 2, e + 1), a, e)
      \<in> measure (\<lambda>(a, e). (if 2 ^ 53 \<le> a then nat \<lceil>a\<rceil> else 0) + nat (e + 1074))"
    using a by simp
next
  fix a :: rat and e :: int
  assume small: "\<not> 2 ^ 53 \<le> a" and b: "a < 2 ^ 52 \<and> - 1074 < e"
  then have "\<not> 2 ^ 53 \<le> a * 2" by simp
  then show "((a * 2, e - 1), a, e)
      \<in> measure (\<lambda>(a, e). (if 2 ^ 53 \<le> a then nat \<lceil>a\<rceil> else 0) + nat (e + 1074))"
    using b small by simp
qed

declare scale.simps [simp del]

definition pow2 :: "int \<Rightarrow> rat" where
  "pow2 e = (if 0 \<le> e then 2 ^ nat e else 1 / 2 ^ nat (- e))"

definition binary64 :: "rat \<Rightarrow> rat" where
  "binary64 x =
     (if x = 0 then 0
      else (let (m, e) = scale \<bar>x\<bar> 0
            in sgn x * of_int (round_even m) * pow2 e))"

text \<open>
  The division, the two loop bodies of the expansion and the loop body of the distribution,
  as above, with the result of every multiplication and division rounded.
  \<^verbatim>\<open>Math.ceil\<close> is exact.
\<close>

definition jsdiv64 :: "rat \<Rightarrow> rat \<Rightarrow> rat option" where
  "jsdiv64 a b = (if b = 0 then None else Some (binary64 (a / b)))"




definition pushPairs64 ::
  "ProductionEdge \<Rightarrow> rat \<Rightarrow> nat list \<Rightarrow> nat list \<Rightarrow> ExpandedEdge list \<Rightarrow> ExpandedEdge list" where
  "pushPairs64 e share fromIndexes toIndexes acc =
     fold (\<lambda>fromIdx acc1.
        fold (\<lambda>toIdx acc2.
           acc2 @ [\<lparr>fromIndex = fromIdx, toIndex = toIdx, itemId = edge_itemId e,
                    amount = binary64 (edge_amount e * share)\<rparr>])
          toIndexes acc1)
       fromIndexes acc"

definition distributeEdge64 ::
  "(string \<rightharpoonup> nat list) \<Rightarrow> ProductionEdge \<Rightarrow> ExpandedEdge list \<Rightarrow> ExpandedEdge list option" where
  "distributeEdge64 m e acc =
     (let fromIndexes = getIndexes m (edge_from e);
          toIndexes = getIndexes m (edge_to e)
      in if length fromIndexes = 0 \<or> length toIndexes = 0 then Some acc
         else do {
           share \<leftarrow> jsdiv64 1 (of_nat (length fromIndexes));
           Some (pushPairs64 e share fromIndexes toIndexes acc)
         })"

section \<open>Auxiliary notions for the statements\<close>

text \<open>
  The entry that one pass of the loop over the sources pushes, written without the
  intermediate variables (lemma \<open>splitSource_eq\<close> relates it to \<open>splitSource\<close>).
\<close>

definition originEntry ::
  "(OreQuality \<Rightarrow> rat) \<Rightarrow> ProductionNode \<Rightarrow> string \<Rightarrow> rat \<Rightarrow> rat \<Rightarrow> nat
     \<Rightarrow> OreQuality \<Rightarrow> nat \<Rightarrow> ExpandedEntry" where
  "originEntry rates n key totalDemand share cnt quality srcIndex =
     \<lparr>node = n\<lparr>outputAmount := rates quality,
                buildingCount := (if rates quality > 0 then totalDemand * share / rates quality else 0),
                totalPower := Math_ceil (if rates quality > 0 then totalDemand * share / rates quality else 0)
                                * powerPerBuilding n\<rparr>,
      originalKey = key, sourceIndex = Some srcIndex, sourceCount = Some cnt,
      sourceQuality = Some quality\<rparr>"

text \<open>Every index stored in the mapping points into the array of expanded nodes.\<close>

definition indexesBelow :: "ExpandState \<Rightarrow> bool" where
  "indexesBelow st =
     (\<forall>k. \<forall>i \<in> set (getIndexes (nodeKeyToExpandedIndexes st) k). i < length (expandedNodes st))"

text \<open>
  The demand an expanded node serves, recovered from what the node carries: its number of
  buildings times its output amount.
\<close>

definition servedDemand :: "ExpandedEntry \<Rightarrow> rat" where
  "servedDemand entry = buildingCount (node entry) * outputAmount (node entry)"

text \<open>The entries that the expansion of one base node appends to \<^verbatim>\<open>expandedNodes\<close>.\<close>

definition newEntries ::
  "(OreQuality \<Rightarrow> rat) \<Rightarrow> (string \<rightharpoonup> OreQuality list) \<Rightarrow> ProductionNode \<Rightarrow> ExpandState
     \<Rightarrow> ExpandedEntry list option" where
  "newEntries rates srcs n st =
     map_option (\<lambda>st'. drop (length (expandedNodes st)) (expandedNodes st')) (expandNode rates srcs n st)"

text \<open>The identity of an expanded edge: its source index, its target index and its item.\<close>

definition edgeIdentity :: "ExpandedEdge \<Rightarrow> nat \<times> nat \<times> string" where
  "edgeIdentity e = (fromIndex e, toIndex e, itemId e)"

text \<open>No list of the mapping holds an index twice.\<close>

definition indexesDistinct :: "ExpandState \<Rightarrow> bool" where
  "indexesDistinct st = (\<forall>k. distinct (getIndexes (nodeKeyToExpandedIndexes st) k))"



section \<open>Concrete inputs\<close>

text \<open>
  A table of yield rates with a zero entry, a provider that returns an excavator feeding a
  smelter, and the remaining collaborators as constants. They are the inputs at which the
  statements below are evaluated.
\<close>

definition example_rates :: "OreQuality \<Rightarrow> rat" where
  "example_rates q =
     (if q = ''depleted'' then 0 else if q = ''impure'' then 5
      else if q = ''normal'' then 10 else 20)"

definition example_excavator :: "rat \<Rightarrow> ProductionNode" where
  "example_excavator demand =
     \<lparr>buildingId = ''ore_excavator'', buildingName = ''Ore Excavator'', recipeIndex = 0,
      outputItem = ''iron_ore'', outputAmount = 10, buildingCount = demand / 10,
      powerPerBuilding = 4, totalPower = Math_ceil (demand / 10) * 4\<rparr>"

definition example_smelter :: ProductionNode where
  "example_smelter =
     \<lparr>buildingId = ''smelter'', buildingName = ''Smelter'', recipeIndex = 0,
      outputItem = ''iron_bar'', outputAmount = 30, buildingCount = 2,
      powerPerBuilding = 6, totalPower = 12\<rparr>"

definition example_edge :: "rat \<Rightarrow> ProductionEdge" where
  "example_edge amt =
     \<lparr>edge_from = ''ore_excavator_0_iron_ore'', edge_to = ''smelter_0_iron_bar'',
      edge_itemId = ''iron_ore'', edge_amount = amt\<rparr>"

definition dangling_edge :: ProductionEdge where
  "dangling_edge =
     \<lparr>edge_from = ''ore_excavator_0_iron_ore'', edge_to = ''missing_0_item'',
      edge_itemId = ''iron_ore'', edge_amount = 4\<rparr>"

definition example_map :: "string \<rightharpoonup> nat list" where
  "example_map = [''ore_excavator_0_iron_ore'' \<mapsto> [0, 1, 2], ''smelter_0_iron_bar'' \<mapsto> [3]]"

text \<open>
  \<^verbatim>\<open>toFixed(1)\<close> on exact values: the nearest number of tenths, the larger one on
  a tie, printed with one decimal.
\<close>

definition example_toFixed1 :: "rat \<Rightarrow> string" where
  "example_toFixed1 x =
     (let n = nat \<lfloor>\<bar>x\<bar> * 10 + 1 / 2\<rfloor>
      in (if x < 0 then ''-'' else '''') @ show_nat (n div 10) @ ''.'' @ [digit_char (n mod 10)])"

definition example_ext :: "(unit, unit) Externals" where
  "example_ext =
     \<lparr>buildProductionFlow =
        (\<lambda>target amt qualities cat.
           ([example_excavator (60 * amt), example_smelter], [example_edge (60 * amt)])),
      ORE_QUALITY_RATES = example_rates,
      dagre_layout = (\<lambda>ids es ident. (100, 60)),
      getItemName = (\<lambda>ident its. ident),
      getItemColor = (\<lambda>ident. ''gray''),
      toFixed1 = example_toFixed1\<rparr>"

definition example_params :: "rat \<Rightarrow> (string \<rightharpoonup> OreQuality list) \<Rightarrow> (unit, unit) FlowDataGenerationParams" where
  "example_params amt srcs =
     \<lparr>targetItemId = ''iron_bar'', targetAmount = amt, catalogue = (), items = (),
      oreSourcesByItem = srcs\<rparr>"

definition inverse_edge :: ProductionEdge where
  "inverse_edge =
     \<lparr>edge_from = ''smelter_0_iron_bar'', edge_to = ''ore_excavator_0_iron_ore'',
      edge_itemId = ''iron_bar'', edge_amount = 10\<rparr>"

definition colliding_edges :: "ExpandedEdge list" where
  "colliding_edges =
     [\<lparr>fromIndex = 0, toIndex = 2, itemId = ''iron_ore'', amount = 3\<rparr>,
      \<lparr>fromIndex = 1, toIndex = 2, itemId = ''iron_ore'', amount = 4\<rparr>,
      \<lparr>fromIndex = 0, toIndex = 2, itemId = ''iron_ore'', amount = 5\<rparr>]"

text \<open>A provider whose excavator yields at the rate of the quality it is given.\<close>

definition quality_ext :: "(unit, unit) Externals" where
  "quality_ext =
     example_ext\<lparr>buildProductionFlow :=
        (\<lambda>target amt qualities cat.
           ([(example_excavator (60 * amt))
               \<lparr>outputAmount :=
                  example_rates (case qualities ''iron_ore'' of None \<Rightarrow> normal | Some q \<Rightarrow> q)\<rparr>],
            []))\<rparr>"

definition six_way_map :: "string \<rightharpoonup> nat list" where
  "six_way_map = [''ore_excavator_0_iron_ore'' \<mapsto> [0, 1, 2, 3, 4, 5], ''smelter_0_iron_bar'' \<mapsto> [6]]"

text \<open>A provider that returns two base edges with the same keys and the same item.\<close>

definition collision_ext :: "(unit, unit) Externals" where
  "collision_ext =
     example_ext\<lparr>buildProductionFlow :=
        (\<lambda>target amt qualities cat.
           ([example_excavator (100 * amt), example_smelter], [example_edge 60, example_edge 40]))\<rparr>"

section \<open>Lemmas about the loops\<close>

lemma jsdiv_Some: "b \<noteq> 0 \<Longrightarrow> jsdiv a b = Some (a / b)"
  by (simp add: jsdiv_def)

lemma fold_push: "fold (\<lambda>x acc. acc @ [g x]) xs acc = acc @ map g xs"
  by (induction xs arbitrary: acc) simp_all

lemma fold_push_lists: "fold (\<lambda>x acc. acc @ h x) xs acc = acc @ concat (map h xs)"
  by (induction xs arbitrary: acc) simp_all

lemma product_concat: "List.product xs ys = concat (map (\<lambda>x. map (Pair x) ys) xs)"
  by (induction xs) simp_all

lemma pushPairs_eq:
  "pushPairs e share fs ts acc =
     acc @ map (\<lambda>(f, t). \<lparr>fromIndex = f, toIndex = t, itemId = edge_itemId e,
                          amount = edge_amount e * share\<rparr>) (List.product fs ts)"
  by (simp add: pushPairs_def fold_push fold_push_lists product_concat map_concat comp_def)

lemma distributeEdge_emit:
  assumes "getIndexes m (edge_from e) \<noteq> []" and "getIndexes m (edge_to e) \<noteq> []"
  shows "distributeEdge m e acc =
     Some (acc @ map (\<lambda>(f, t). \<lparr>fromIndex = f, toIndex = t, itemId = edge_itemId e,
              amount = edge_amount e * (1 / of_nat (length (getIndexes m (edge_from e))))\<rparr>)
            (List.product (getIndexes m (edge_from e)) (getIndexes m (edge_to e))))"
  using assms by (simp add: distributeEdge_def Let_def jsdiv_Some pushPairs_eq)

lemma distributeEdge_drop:
  assumes "getIndexes m (edge_from e) = [] \<or> getIndexes m (edge_to e) = []"
  shows "distributeEdge m e acc = Some acc"
  using assms by (auto simp add: distributeEdge_def Let_def)

lemma distributeEdge_total: "\<exists>new. distributeEdge m e acc = Some (acc @ new)"
proof (cases "getIndexes m (edge_from e) = [] \<or> getIndexes m (edge_to e) = []")
  case True
  then show ?thesis by (simp add: distributeEdge_drop)
next
  case False
  then show ?thesis using distributeEdge_emit [of m e acc] by auto
qed

lemma distributeEdges_append:
  "distributeEdges m (xs @ ys) acc = Option.bind (distributeEdges m xs acc) (distributeEdges m ys)"
proof (induction xs arbitrary: acc)
  case Nil
  then show ?case by simp
next
  case (Cons x xs)
  then show ?case by (cases "distributeEdge m x acc") simp_all
qed

lemma distributeEdges_total: "\<exists>new. distributeEdges m es acc = Some (acc @ new)"
proof (induction es arbitrary: acc)
  case Nil
  then show ?case by simp
next
  case (Cons e es)
  obtain n1 where a: "distributeEdge m e acc = Some (acc @ n1)"
    using distributeEdge_total by blast
  obtain n2 where b: "distributeEdges m es (acc @ n1) = Some ((acc @ n1) @ n2)"
    using Cons.IH by blast
  show ?case using a b by simp
qed

lemma splitSource_eq:
  "splitSource rates n key td sh cnt q i st =
     Some \<lparr>expandedNodes = expandedNodes st @ [originEntry rates n key td sh cnt q i],
           nodeKeyToExpandedIndexes = (nodeKeyToExpandedIndexes st)
             (key \<mapsto> getIndexes (nodeKeyToExpandedIndexes st) key @ [length (expandedNodes st)])\<rparr>"
  by (simp add: splitSource_def originEntry_def jsdiv_def Let_def)

lemma forEachSource_nodes:
  "\<exists>st'. forEachSource rates n key td sh cnt qs i st = Some st' \<and>
     expandedNodes st' = expandedNodes st @
        map (\<lambda>(j, q). originEntry rates n key td sh cnt q j) (zip [i..<i + length qs] qs)"
proof (induction qs arbitrary: i st)
  case Nil
  then show ?case by simp
next
  case (Cons q qs)
  let ?st1 = "\<lparr>expandedNodes = expandedNodes st @ [originEntry rates n key td sh cnt q i],
           nodeKeyToExpandedIndexes = (nodeKeyToExpandedIndexes st)
             (key \<mapsto> getIndexes (nodeKeyToExpandedIndexes st) key @ [length (expandedNodes st)])\<rparr>"
  obtain st' where a: "forEachSource rates n key td sh cnt qs (Suc i) ?st1 = Some st'"
    and b: "expandedNodes st' = expandedNodes ?st1 @
        map (\<lambda>(j, q). originEntry rates n key td sh cnt q j) (zip [Suc i..<Suc i + length qs] qs)"
    using Cons.IH [of "Suc i" ?st1] by blast
  have c: "[i..<i + length (q # qs)] = i # [Suc i..<Suc i + length qs]"
  proof -
    have "i < i + length (q # qs)" by simp
    then have "[i..<i + length (q # qs)] = i # [Suc i..<i + length (q # qs)]"
      by (rule upt_conv_Cons)
    then show ?thesis by simp
  qed
  have d: "forEachSource rates n key td sh cnt (q # qs) i st = Some st'"
    using a by (simp add: splitSource_eq)
  have e: "expandedNodes st' = expandedNodes st @
        map (\<lambda>(j, q). originEntry rates n key td sh cnt q j) (zip [i..<i + length (q # qs)] (q # qs))"
    by (subst c) (use b in simp)
  show ?case using d e by blast
qed

lemma getOreSources_nonempty: "getOreSources srcs item \<noteq> []"
  by (simp add: getOreSources_def split: option.splits)

lemma expandNode_excavator:
  assumes "buildingId n = ''ore_excavator''"
  shows "\<exists>st'. expandNode rates srcs n st = Some st' \<and>
     expandedNodes st' = expandedNodes st @
        map (\<lambda>(j, q). originEntry rates n (nodeKey n) (buildingCount n * outputAmount n)
                        (1 / of_nat (length (getOreSources srcs (outputItem n))))
                        (length (getOreSources srcs (outputItem n))) q j)
          (zip [0..<length (getOreSources srcs (outputItem n))] (getOreSources srcs (outputItem n)))"
  using assms getOreSources_nonempty [of srcs "outputItem n"]
    forEachSource_nodes [of rates n "nodeKey n" "buildingCount n * outputAmount n"
       "1 / of_nat (length (getOreSources srcs (outputItem n)))"
       "length (getOreSources srcs (outputItem n))" "getOreSources srcs (outputItem n)" 0 st]
  by (simp add: expandNode_def Let_def jsdiv_def)

lemma expandNode_other:
  assumes "buildingId n \<noteq> ''ore_excavator''"
  shows "expandNode rates srcs n st =
     Some \<lparr>expandedNodes = expandedNodes st @
             [\<lparr>node = n, originalKey = nodeKey n, sourceIndex = None, sourceCount = None,
               sourceQuality = None\<rparr>],
           nodeKeyToExpandedIndexes = (nodeKeyToExpandedIndexes st)(nodeKey n \<mapsto> [length (expandedNodes st)])\<rparr>"
  using assms by (simp add: expandNode_def Let_def)

lemma indexesBelow_initial: "indexesBelow initialState"
  by (simp add: indexesBelow_def initialState_def getIndexes_def)

lemma indexesBelow_splitSource:
  assumes "indexesBelow st" and "splitSource rates n key td sh cnt q i st = Some st'"
  shows "indexesBelow st'"
proof -
  have st': "st' = \<lparr>expandedNodes = expandedNodes st @ [originEntry rates n key td sh cnt q i],
           nodeKeyToExpandedIndexes = (nodeKeyToExpandedIndexes st)
             (key \<mapsto> getIndexes (nodeKeyToExpandedIndexes st) key @ [length (expandedNodes st)])\<rparr>"
    using assms(2) by (simp add: splitSource_eq)
  show ?thesis
    unfolding indexesBelow_def
  proof (intro allI ballI)
    fix k j
    assume j: "j \<in> set (getIndexes (nodeKeyToExpandedIndexes st') k)"
    show "j < length (expandedNodes st')"
    proof (cases "k = key")
      case True
      then have "j \<in> set (getIndexes (nodeKeyToExpandedIndexes st) key) \<or> j = length (expandedNodes st)"
        using j by (auto simp add: st' getIndexes_def)
      then show ?thesis using assms(1) by (auto simp add: st' indexesBelow_def less_Suc_eq)
    next
      case False
      then have "j \<in> set (getIndexes (nodeKeyToExpandedIndexes st) k)"
        using j by (simp add: st' getIndexes_def)
      then show ?thesis using assms(1) by (auto simp add: st' indexesBelow_def less_Suc_eq)
    qed
  qed
qed

lemma indexesBelow_forEachSource:
  assumes "indexesBelow st" and "forEachSource rates n key td sh cnt qs i st = Some st'"
  shows "indexesBelow st'"
  using assms
proof (induction qs arbitrary: i st)
  case Nil
  then show ?case by simp
next
  case (Cons q qs)
  obtain st1 where a: "splitSource rates n key td sh cnt q i st = Some st1"
    by (simp add: splitSource_eq)
  have "indexesBelow st1" using Cons.prems(1) a by (rule indexesBelow_splitSource)
  moreover have "forEachSource rates n key td sh cnt qs (Suc i) st1 = Some st'"
    using Cons.prems(2) a by simp
  ultimately show ?case by (rule Cons.IH)
qed

lemma indexesBelow_expandNode:
  assumes "indexesBelow st" and "expandNode rates srcs n st = Some st'"
  shows "indexesBelow st'"
proof (cases "buildingId n = ''ore_excavator''")
  case True
  then have "forEachSource rates n (nodeKey n) (buildingCount n * outputAmount n)
       (1 / of_nat (length (getOreSources srcs (outputItem n))))
       (length (getOreSources srcs (outputItem n))) (getOreSources srcs (outputItem n)) 0 st = Some st'"
    using assms(2) getOreSources_nonempty [of srcs "outputItem n"]
    by (simp add: expandNode_def Let_def jsdiv_def)
  with assms(1) show ?thesis by (rule indexesBelow_forEachSource)
next
  case False
  then have st': "st' = \<lparr>expandedNodes = expandedNodes st @
             [\<lparr>node = n, originalKey = nodeKey n, sourceIndex = None, sourceCount = None,
               sourceQuality = None\<rparr>],
           nodeKeyToExpandedIndexes = (nodeKeyToExpandedIndexes st)(nodeKey n \<mapsto> [length (expandedNodes st)])\<rparr>"
    using assms(2) by (simp add: expandNode_other)
  show ?thesis
    unfolding indexesBelow_def
  proof (intro allI ballI)
    fix k j
    assume j: "j \<in> set (getIndexes (nodeKeyToExpandedIndexes st') k)"
    show "j < length (expandedNodes st')"
    proof (cases "k = nodeKey n")
      case True
      then show ?thesis using j by (simp add: st' getIndexes_def)
    next
      case False
      then have "j \<in> set (getIndexes (nodeKeyToExpandedIndexes st) k)"
        using j by (simp add: st' getIndexes_def)
      then show ?thesis using assms(1) by (auto simp add: st' indexesBelow_def less_Suc_eq)
    qed
  qed
qed

lemma expandNode_total: "\<exists>st'. expandNode rates srcs n st = Some st'"
  using expandNode_excavator [of n rates srcs st] expandNode_other [of n rates srcs st]
  by (cases "buildingId n = ''ore_excavator''") auto

lemma expandNodes_total: "\<exists>st'. expandNodes rates srcs ns st = Some st'"
proof (induction ns arbitrary: st)
  case Nil
  then show ?case by simp
next
  case (Cons n ns)
  obtain st1 where "expandNode rates srcs n st = Some st1"
    using expandNode_total by blast
  then show ?case using Cons.IH [of st1] by simp
qed

lemma indexesBelow_expandNodes:
  assumes "indexesBelow st" and "expandNodes rates srcs ns st = Some st'"
  shows "indexesBelow st'"
  using assms
proof (induction ns arbitrary: st)
  case Nil
  then show ?case by simp
next
  case (Cons n ns)
  obtain st1 where a: "expandNode rates srcs n st = Some st1"
    using expandNode_total by blast
  have "indexesBelow st1" using Cons.prems(1) a by (rule indexesBelow_expandNode)
  moreover have "expandNodes rates srcs ns st1 = Some st'"
    using Cons.prems(2) a by simp
  ultimately show ?case by (rule Cons.IH)
qed

lemma distributeEdge_members:
  assumes "distributeEdge m e acc = Some r" and "x \<in> set r"
  shows "x \<in> set acc \<or>
     (fromIndex x \<in> set (getIndexes m (edge_from e)) \<and> toIndex x \<in> set (getIndexes m (edge_to e)))"
proof (cases "getIndexes m (edge_from e) = [] \<or> getIndexes m (edge_to e) = []")
  case True
  then show ?thesis using assms by (simp add: distributeEdge_drop)
next
  case False
  then show ?thesis using assms distributeEdge_emit [of m e acc] by auto
qed

lemma distributeEdges_members:
  assumes "distributeEdges m es acc = Some r" and "x \<in> set r"
  shows "x \<in> set acc \<or>
     (\<exists>e \<in> set es. fromIndex x \<in> set (getIndexes m (edge_from e)) \<and>
                    toIndex x \<in> set (getIndexes m (edge_to e)))"
  using assms
proof (induction es arbitrary: acc)
  case Nil
  then show ?case by simp
next
  case (Cons e es)
  obtain a1 where a: "distributeEdge m e acc = Some a1"
    using distributeEdge_total by blast
  have "distributeEdges m es a1 = Some r" using Cons.prems(1) a by simp
  then have "x \<in> set a1 \<or>
     (\<exists>e \<in> set es. fromIndex x \<in> set (getIndexes m (edge_from e)) \<and>
                    toIndex x \<in> set (getIndexes m (edge_to e)))"
    using Cons.prems(2) by (rule Cons.IH)
  then show ?case using distributeEdge_members [OF a, of x] by auto
qed

lemma edge_id_reactFlowEdge: "edge_id (reactFlowEdge ext its e) = edgeId e"
  by (simp add: reactFlowEdge_def)

lemma dedupeEdges_ids:
  assumes "edge_id ` set out = S"
  shows "edge_id ` set (fst (dedupeEdges ext its es (out, S))) = S \<union> edgeId ` set es"
  using assms
proof (induction es arbitrary: out S)
  case Nil
  then show ?case by simp
next
  case (Cons e es)
  show ?case
  proof (cases "edgeId e \<in> S")
    case True
    then show ?thesis using Cons.IH [OF Cons.prems] by auto
  next
    case False
    have "edge_id ` set (out @ [reactFlowEdge ext its e]) = insert (edgeId e) S"
      using Cons.prems by (auto simp add: edge_id_reactFlowEdge)
    from Cons.IH [OF this] False show ?thesis by auto
  qed
qed

lemma dedupeEdges_distinct:
  assumes "edge_id ` set out = S" and "distinct (map edge_id out)"
  shows "distinct (map edge_id (fst (dedupeEdges ext its es (out, S))))"
  using assms
proof (induction es arbitrary: out S)
  case Nil
  then show ?case by simp
next
  case (Cons e es)
  show ?case
  proof (cases "edgeId e \<in> S")
    case True
    then show ?thesis using Cons.IH [OF Cons.prems] by simp
  next
    case False
    have a: "edge_id ` set (out @ [reactFlowEdge ext its e]) = insert (edgeId e) S"
      using Cons.prems(1) by (auto simp add: edge_id_reactFlowEdge)
    have b: "distinct (map edge_id (out @ [reactFlowEdge ext its e]))"
      using Cons.prems False by (auto simp add: edge_id_reactFlowEdge)
    from Cons.IH [OF a b] False show ?thesis by simp
  qed
qed

lemma dedupeEdges_first:
  assumes "r \<in> set (fst (dedupeEdges ext its es (out, S)))"
  shows "r \<in> set out \<or>
     (\<exists>i < length es. r = reactFlowEdge ext its (es ! i) \<and> edgeId (es ! i) \<notin> S \<and>
        (\<forall>j < i. edgeId (es ! j) \<noteq> edgeId (es ! i)))"
  using assms
proof (induction es arbitrary: out S)
  case Nil
  then show ?case by simp
next
  case (Cons e es)
  show ?case
  proof (cases "edgeId e \<in> S")
    case True
    then have "r \<in> set (fst (dedupeEdges ext its es (out, S)))"
      using Cons.prems by simp
    then have "r \<in> set out \<or>
     (\<exists>i < length es. r = reactFlowEdge ext its (es ! i) \<and> edgeId (es ! i) \<notin> S \<and>
        (\<forall>j < i. edgeId (es ! j) \<noteq> edgeId (es ! i)))"
      by (rule Cons.IH)
    then show ?thesis
    proof
      assume "r \<in> set out"
      then show ?thesis by simp
    next
      assume "\<exists>i < length es. r = reactFlowEdge ext its (es ! i) \<and> edgeId (es ! i) \<notin> S \<and>
        (\<forall>j < i. edgeId (es ! j) \<noteq> edgeId (es ! i))"
      then obtain i where i: "i < length es" "r = reactFlowEdge ext its (es ! i)"
        "edgeId (es ! i) \<notin> S" "\<forall>j < i. edgeId (es ! j) \<noteq> edgeId (es ! i)"
        by blast
      have "\<forall>j < Suc i. edgeId ((e # es) ! j) \<noteq> edgeId ((e # es) ! Suc i)"
      proof (intro allI impI)
        fix j assume "j < Suc i"
        then show "edgeId ((e # es) ! j) \<noteq> edgeId ((e # es) ! Suc i)"
          using i(3,4) True by (cases j) auto
      qed
      then have "Suc i < length (e # es) \<and> r = reactFlowEdge ext its ((e # es) ! Suc i) \<and>
         edgeId ((e # es) ! Suc i) \<notin> S \<and>
         (\<forall>j < Suc i. edgeId ((e # es) ! j) \<noteq> edgeId ((e # es) ! Suc i))"
        using i by simp
      then show ?thesis by blast
    qed
  next
    case False
    then have "r \<in> set (fst (dedupeEdges ext its es
        (out @ [reactFlowEdge ext its e], insert (edgeId e) S)))"
      using Cons.prems by simp
    then have "r \<in> set (out @ [reactFlowEdge ext its e]) \<or>
     (\<exists>i < length es. r = reactFlowEdge ext its (es ! i) \<and> edgeId (es ! i) \<notin> insert (edgeId e) S \<and>
        (\<forall>j < i. edgeId (es ! j) \<noteq> edgeId (es ! i)))"
      by (rule Cons.IH)
    then consider "r \<in> set out" | "r = reactFlowEdge ext its e"
      | i where "i < length es" "r = reactFlowEdge ext its (es ! i)"
        "edgeId (es ! i) \<notin> insert (edgeId e) S" "\<forall>j < i. edgeId (es ! j) \<noteq> edgeId (es ! i)"
      by auto
    then show ?thesis
    proof cases
      case 1
      then show ?thesis by simp
    next
      case 2
      then have "0 < length (e # es) \<and> r = reactFlowEdge ext its ((e # es) ! 0) \<and>
         edgeId ((e # es) ! 0) \<notin> S \<and> (\<forall>j < (0::nat). edgeId ((e # es) ! j) \<noteq> edgeId ((e # es) ! 0))"
        using False by simp
      then show ?thesis by blast
    next
      case 3
      have "\<forall>j < Suc i. edgeId ((e # es) ! j) \<noteq> edgeId ((e # es) ! Suc i)"
      proof (intro allI impI)
        fix j assume "j < Suc i"
        then show "edgeId ((e # es) ! j) \<noteq> edgeId ((e # es) ! Suc i)"
          using 3(3,4) by (cases j) auto
      qed
      then have "Suc i < length (e # es) \<and> r = reactFlowEdge ext its ((e # es) ! Suc i) \<and>
         edgeId ((e # es) ! Suc i) \<notin> S \<and>
         (\<forall>j < Suc i. edgeId ((e # es) ! j) \<noteq> edgeId ((e # es) ! Suc i))"
        using 3 by simp
      then show ?thesis by blast
    qed
  qed
qed

lemma reactFlowNodes_ids:
  "map node_id (reactFlowNodes pos entries) = map node_name [0..<length entries]"
  by (rule nth_equalityI) (simp_all add: reactFlowNodes_def reactFlowNode_def Let_def)

lemma map_zip_index: "map (\<lambda>(j, q). f q) (zip [i..<i + length qs] qs) = map f qs"
  by (rule nth_equalityI) simp_all

lemma newEntries_excavator:
  assumes "buildingId n = ''ore_excavator''" and "getOreSources srcs (outputItem n) = qs"
  shows "newEntries rates srcs n st =
     Some (map (\<lambda>(j, q). originEntry rates n (nodeKey n) (buildingCount n * outputAmount n)
                        (1 / of_nat (length qs)) (length qs) q j) (zip [0..<0 + length qs] qs))"
  using expandNode_excavator [OF assms(1), of rates srcs st] assms(2)
  by (auto simp add: newEntries_def)



lemma filter_eq_distinct:
  assumes "distinct ts" and "t \<in> set ts"
  shows "filter (\<lambda>x. x = t) ts = [t]"
  using assms
proof (induction ts)
  case Nil
  then show ?case by simp
next
  case (Cons a ts)
  show ?case
  proof (cases "a = t")
    case True
    then have "t \<notin> set ts" using Cons.prems(1) by simp
    then have "filter (\<lambda>x. x = t) ts = []" by (auto simp add: filter_empty_conv)
    then show ?thesis using True by simp
  next
    case False
    then show ?thesis using Cons by auto
  qed
qed

lemma filter_product_target:
  assumes "distinct ts" and "t \<in> set ts"
  shows "filter (\<lambda>x. toIndex x = t)
           (map (\<lambda>(f, t). \<lparr>fromIndex = f, toIndex = t, itemId = i, amount = a\<rparr>) (List.product fs ts))
         = map (\<lambda>f. \<lparr>fromIndex = f, toIndex = t, itemId = i, amount = a\<rparr>) fs"
proof (induction fs)
  case Nil
  then show ?case by simp
next
  case (Cons f fs)
  have "filter (\<lambda>x. toIndex x = t)
          (map (\<lambda>t. \<lparr>fromIndex = f, toIndex = t, itemId = i, amount = a\<rparr>) ts)
        = map (\<lambda>t. \<lparr>fromIndex = f, toIndex = t, itemId = i, amount = a\<rparr>) (filter (\<lambda>x. x = t) ts)"
    by (simp add: filter_map comp_def)
  then have "filter (\<lambda>x. toIndex x = t)
          (map (\<lambda>t. \<lparr>fromIndex = f, toIndex = t, itemId = i, amount = a\<rparr>) ts)
        = [\<lparr>fromIndex = f, toIndex = t, itemId = i, amount = a\<rparr>]"
    by (simp add: filter_eq_distinct [OF assms])
  then show ?case using Cons.IH by (simp add: comp_def)
qed

lemma oreQualityByItem_take:
  assumes "\<forall>item. map_option (take 1) (srcs' item) = map_option (take 1) (srcs item)"
  shows "oreQualityByItem srcs' = oreQualityByItem srcs"
proof
  fix item
  have a: "map_option (take 1) (srcs' item) = map_option (take 1) (srcs item)"
    using assms by blast
  show "oreQualityByItem srcs' item = oreQualityByItem srcs item"
  proof (cases "srcs item")
    case None
    then show ?thesis using a by (simp add: oreQualityByItem_def)
  next
    case (Some xs)
    then obtain ys where ys: "srcs' item = Some ys" "take 1 ys = take 1 xs"
      using a by (cases "srcs' item") auto
    then show ?thesis using Some
      by (cases xs; cases ys) (simp_all add: oreQualityByItem_def)
  qed
qed

lemma digit_char_inj:
  assumes "d < 10" and "d' < 10" and "digit_char d = digit_char d'"
  shows "d = d'"
proof -
  have "distinct ''0123456789''" by simp
  moreover have "d < length ''0123456789''" "d' < length ''0123456789''" using assms by simp_all
  ultimately show ?thesis using assms(3) unfolding digit_char_def
    by (simp only: nth_eq_iff_index_eq)
qed

lemma digit_char_digit:
  assumes "d < 10"
  shows "digit_char d \<in> set ''0123456789''"
proof -
  have "d < length ''0123456789''" using assms by simp
  then show ?thesis unfolding digit_char_def by (rule nth_mem)
qed

lemma show_nat_digits: "set (show_nat n) \<subseteq> set ''0123456789''"
proof (induction n rule: show_nat.induct)
  case (1 n)
  show ?case
  proof (cases "n < 10")
    case True
    then show ?thesis using digit_char_digit [of n] by (subst show_nat.simps) simp
  next
    case False
    have "n mod 10 < 10" by simp
    then have "digit_char (n mod 10) \<in> set ''0123456789''" by (rule digit_char_digit)
    then show ?thesis using False "1.IH" by (subst show_nat.simps) simp
  qed
qed

lemma show_nat_no_dash: "CHR ''-'' \<notin> set (show_nat n)"
  using show_nat_digits [of n] by auto

lemma show_nat_nonempty: "show_nat n \<noteq> []"
  by (subst show_nat.simps) simp

lemma show_nat_inj: "show_nat n = show_nat m \<Longrightarrow> n = m"
proof (induction n arbitrary: m rule: show_nat.induct)
  case (1 n)
  show ?case
  proof (cases "n < 10")
    case n: True
    show ?thesis
    proof (cases "m < 10")
      case True
      then have "digit_char n = digit_char m"
        using "1.prems" n by (simp add: show_nat.simps [of n] show_nat.simps [of m])
      then show ?thesis using n True by (rule digit_char_inj [rotated 2])
    next
      case False
      then have "[digit_char n] = show_nat (m div 10) @ [digit_char (m mod 10)]"
        using "1.prems" n by (simp add: show_nat.simps [of n] show_nat.simps [of m])
      then show ?thesis using show_nat_nonempty [of "m div 10"] by simp
    qed
  next
    case n: False
    show ?thesis
    proof (cases "m < 10")
      case True
      then have "show_nat (n div 10) @ [digit_char (n mod 10)] = [digit_char m]"
        using "1.prems" n by (simp add: show_nat.simps [of n] show_nat.simps [of m])
      then show ?thesis using show_nat_nonempty [of "n div 10"] by simp
    next
      case False
      then have "show_nat (n div 10) @ [digit_char (n mod 10)] =
                 show_nat (m div 10) @ [digit_char (m mod 10)]"
        using "1.prems" n by (simp add: show_nat.simps [of n] show_nat.simps [of m])
      then have a: "show_nat (n div 10) = show_nat (m div 10)"
        and b: "digit_char (n mod 10) = digit_char (m mod 10)"
        by simp_all
      have "n div 10 = m div 10" using n a by (rule "1.IH")
      moreover have "n mod 10 = m mod 10"
        using b by (intro digit_char_inj) simp_all
      ultimately show ?thesis by (metis div_mult_mod_eq)
    qed
  qed
qed

lemma split_at_separator:
  assumes "c \<notin> set xs" and "c \<notin> set ys" and "xs @ c # r = ys @ c # r'"
  shows "xs = ys \<and> r = r'"
  using assms
proof (induction xs arbitrary: ys)
  case Nil
  then show ?case by (cases ys) auto
next
  case (Cons x xs)
  then show ?case by (cases ys) auto
qed

lemma edgeId_inject:
  "edgeId e1 = edgeId e2 \<longleftrightarrow>
     fromIndex e1 = fromIndex e2 \<and> toIndex e1 = toIndex e2 \<and> itemId e1 = itemId e2"
proof
  assume eq: "edgeId e1 = edgeId e2"
  then have "show_nat (fromIndex e1) @ CHR ''-'' # (node_name (toIndex e1) @ ''-'' @ itemId e1) =
             show_nat (fromIndex e2) @ CHR ''-'' # (node_name (toIndex e2) @ ''-'' @ itemId e2)"
    by (simp add: edgeId_def node_name_def)
  then have a: "show_nat (fromIndex e1) = show_nat (fromIndex e2)"
    and "node_name (toIndex e1) @ ''-'' @ itemId e1 = node_name (toIndex e2) @ ''-'' @ itemId e2"
    using split_at_separator [OF show_nat_no_dash show_nat_no_dash] by blast+
  then have "show_nat (toIndex e1) @ CHR ''-'' # itemId e1 =
             show_nat (toIndex e2) @ CHR ''-'' # itemId e2"
    by (simp add: node_name_def)
  then have b: "show_nat (toIndex e1) = show_nat (toIndex e2)" and c: "itemId e1 = itemId e2"
    using split_at_separator [OF show_nat_no_dash show_nat_no_dash] by blast+
  show "fromIndex e1 = fromIndex e2 \<and> toIndex e1 = toIndex e2 \<and> itemId e1 = itemId e2"
    using a b c by (simp add: show_nat_inj)
next
  assume "fromIndex e1 = fromIndex e2 \<and> toIndex e1 = toIndex e2 \<and> itemId e1 = itemId e2"
  then show "edgeId e1 = edgeId e2" by (simp add: edgeId_def)
qed

lemma node_name_inject: "node_name i = node_name j \<longleftrightarrow> i = j"
  using show_nat_inj by (auto simp add: node_name_def)

lemma show_nat_small: "n < 10 \<Longrightarrow> show_nat n = [digit_char n]"
  by (subst show_nat.simps) simp

lemma show_nat_large: "10 \<le> n \<Longrightarrow> show_nat n = show_nat (n div 10) @ [digit_char (n mod 10)]"
  by (subst show_nat.simps) simp

lemma floor_rat_numeral: "\<lfloor>(numeral a :: rat) / numeral b\<rfloor> = numeral a div numeral b"
  using floor_divide_of_int_eq [of "numeral a" "numeral b", where ?'a = rat] by simp

lemma edgeId_identity: "edgeId e1 = edgeId e2 \<longleftrightarrow> edgeIdentity e1 = edgeIdentity e2"
  by (simp add: edgeId_inject edgeIdentity_def)

lemma distinct_one_match:
  assumes "distinct (map f xs)" and "y \<in> f ` set xs"
  shows "length (filter (\<lambda>r. f r = y) xs) = 1"
  using assms
proof (induction xs)
  case Nil
  then show ?case by simp
next
  case (Cons x xs)
  show ?case
  proof (cases "f x = y")
    case True
    then have "y \<notin> f ` set xs" using Cons.prems(1) by auto
    then have "filter (\<lambda>r. f r = y) xs = []" by (auto simp add: filter_empty_conv)
    then show ?thesis using True by simp
  next
    case False
    then show ?thesis using Cons by auto
  qed
qed

lemma generateReactFlowData_shape:
  "\<exists>st xs. expandNodes (ORE_QUALITY_RATES ext) (oreSourcesByItem p) (fst (baseGraph ext p)) initialState = Some st \<and>
     distributeEdges (nodeKeyToExpandedIndexes st) (snd (baseGraph ext p)) [] = Some xs \<and>
     generateReactFlowData ext p =
       Some \<lparr>nodes = reactFlowNodes
                 (dagre_layout ext (map node_name [0..<length (expandedNodes st)])
                    (map (\<lambda>e. (node_name (fromIndex e), node_name (toIndex e))) xs))
                 (expandedNodes st),
             edges = reactFlowEdges ext (items p) xs\<rparr>"
proof -
  obtain ns es where g: "baseGraph ext p = (ns, es)" by (cases "baseGraph ext p")
  obtain st where st: "expandNodes (ORE_QUALITY_RATES ext) (oreSourcesByItem p) ns initialState = Some st"
    using expandNodes_total by blast
  obtain xs where xs: "distributeEdges (nodeKeyToExpandedIndexes st) es [] = Some xs"
    using distributeEdges_total [of "nodeKeyToExpandedIndexes st" es "[]"] by auto
  show ?thesis
    by (simp add: generateReactFlowData_def g st xs Let_def)
qed

lemma reactFlowEdges_from:
  assumes "r \<in> set (reactFlowEdges ext its es)"
  shows "\<exists>e \<in> set es. r = reactFlowEdge ext its e"
  using dedupeEdges_first [of r ext its es "[]" "{}"] assms
  by (auto simp add: reactFlowEdges_def)

lemma indexesDistinct_initial: "indexesDistinct initialState"
  by (simp add: indexesDistinct_def initialState_def getIndexes_def)

lemma indexesDistinct_splitSource:
  assumes "indexesBelow st" and "indexesDistinct st"
    and "splitSource rates n key td sh cnt q i st = Some st'"
  shows "indexesDistinct st'"
proof -
  have st': "st' = \<lparr>expandedNodes = expandedNodes st @ [originEntry rates n key td sh cnt q i],
           nodeKeyToExpandedIndexes = (nodeKeyToExpandedIndexes st)
             (key \<mapsto> getIndexes (nodeKeyToExpandedIndexes st) key @ [length (expandedNodes st)])\<rparr>"
    using assms(3) by (simp add: splitSource_eq)
  have fresh: "length (expandedNodes st) \<notin> set (getIndexes (nodeKeyToExpandedIndexes st) key)"
    using assms(1) by (auto simp add: indexesBelow_def)
  show ?thesis
    unfolding indexesDistinct_def
  proof
    fix k
    show "distinct (getIndexes (nodeKeyToExpandedIndexes st') k)"
    proof (cases "k = key")
      case True
      have "getIndexes (nodeKeyToExpandedIndexes st') k =
            getIndexes (nodeKeyToExpandedIndexes st) key @ [length (expandedNodes st)]"
        using True by (simp add: st' getIndexes_def)
      then show ?thesis using assms(2) fresh by (simp add: indexesDistinct_def)
    next
      case False
      then have "getIndexes (nodeKeyToExpandedIndexes st') k = getIndexes (nodeKeyToExpandedIndexes st) k"
        by (simp add: st' getIndexes_def)
      then show ?thesis using assms(2) by (simp add: indexesDistinct_def)
    qed
  qed
qed

lemma indexesDistinct_forEachSource:
  assumes "indexesBelow st" and "indexesDistinct st"
    and "forEachSource rates n key td sh cnt qs i st = Some st'"
  shows "indexesDistinct st'"
  using assms
proof (induction qs arbitrary: i st)
  case Nil
  then show ?case by simp
next
  case (Cons q qs)
  obtain st1 where a: "splitSource rates n key td sh cnt q i st = Some st1"
    by (simp add: splitSource_eq)
  have b: "indexesBelow st1" using Cons.prems(1) a by (rule indexesBelow_splitSource)
  have c: "indexesDistinct st1" using Cons.prems(1,2) a by (rule indexesDistinct_splitSource)
  have "forEachSource rates n key td sh cnt qs (Suc i) st1 = Some st'"
    using Cons.prems(3) a by simp
  with b c show ?case by (rule Cons.IH)
qed

lemma indexesDistinct_expandNode:
  assumes "indexesBelow st" and "indexesDistinct st" and "expandNode rates srcs n st = Some st'"
  shows "indexesDistinct st'"
proof (cases "buildingId n = ''ore_excavator''")
  case True
  then have "forEachSource rates n (nodeKey n) (buildingCount n * outputAmount n)
       (1 / of_nat (length (getOreSources srcs (outputItem n))))
       (length (getOreSources srcs (outputItem n))) (getOreSources srcs (outputItem n)) 0 st = Some st'"
    using assms(3) getOreSources_nonempty [of srcs "outputItem n"]
    by (simp add: expandNode_def Let_def jsdiv_def)
  with assms(1,2) show ?thesis by (rule indexesDistinct_forEachSource)
next
  case False
  then have st': "st' = \<lparr>expandedNodes = expandedNodes st @
             [\<lparr>node = n, originalKey = nodeKey n, sourceIndex = None, sourceCount = None,
               sourceQuality = None\<rparr>],
           nodeKeyToExpandedIndexes = (nodeKeyToExpandedIndexes st)(nodeKey n \<mapsto> [length (expandedNodes st)])\<rparr>"
    using assms(3) by (simp add: expandNode_other)
  show ?thesis
    unfolding indexesDistinct_def
  proof
    fix k
    show "distinct (getIndexes (nodeKeyToExpandedIndexes st') k)"
      using assms(2) by (cases "k = nodeKey n") (simp_all add: st' getIndexes_def indexesDistinct_def)
  qed
qed

lemma indexes_expandNodes:
  assumes "indexesBelow st" and "indexesDistinct st" and "expandNodes rates srcs ns st = Some st'"
  shows "indexesBelow st' \<and> indexesDistinct st'"
  using assms
proof (induction ns arbitrary: st)
  case Nil
  then show ?case by simp
next
  case (Cons n ns)
  obtain st1 where a: "expandNode rates srcs n st = Some st1"
    using expandNode_total by blast
  have b: "indexesBelow st1" using Cons.prems(1) a by (rule indexesBelow_expandNode)
  have c: "indexesDistinct st1" using Cons.prems(1,2) a by (rule indexesDistinct_expandNode)
  have "expandNodes rates srcs ns st1 = Some st'"
    using Cons.prems(3) a by simp
  with b c show ?case by (rule Cons.IH)
qed

lemma expandNodes_distinct_indexes:
  assumes "expandNodes rates srcs ns initialState = Some st"
  shows "distinct (getIndexes (nodeKeyToExpandedIndexes st) k)"
  using indexes_expandNodes [OF indexesBelow_initial indexesDistinct_initial assms]
  by (simp add: indexesDistinct_def)

text \<open>Evaluation of the rounding on numerals.\<close>

lemma scale_down: "2 ^ 53 \<le> a \<Longrightarrow> scale a e = scale (a / 2) (e + 1)"
  by (subst scale.simps) simp

lemma scale_up: "a < 2 ^ 52 \<Longrightarrow> - 1074 < e \<Longrightarrow> scale a e = scale (a * 2) (e - 1)"
  by (subst scale.simps) simp

lemma scale_stop: "2 ^ 52 \<le> a \<Longrightarrow> a < 2 ^ 53 \<Longrightarrow> scale a e = (a, e)"
  by (subst scale.simps) simp

lemma scale_stop_subnormal: "a < 2 ^ 52 \<Longrightarrow> e = - 1074 \<Longrightarrow> scale a e = (a, e)"
  by (subst scale.simps) simp

lemma pow2_step: "pow2 (e + 1) = 2 * pow2 e"
proof (cases "0 \<le> e")
  case True
  then have "nat (e + 1) = Suc (nat e)" by simp
  then show ?thesis using True by (simp add: pow2_def)
next
  case False
  show ?thesis
  proof (cases "e = - 1")
    case True
    then show ?thesis by (simp add: pow2_def)
  next
    case F: False
    have "nat (- e) = Suc (nat (- (e + 1)))" using False by simp
    then have "(2 :: rat) ^ nat (- e) = 2 * 2 ^ nat (- (e + 1))" by simp
    then show ?thesis using False F by (simp add: pow2_def)
  qed
qed

text \<open>
  The two numbers that \<open>scale\<close> returns still denote the magnitude it was given, and the
  first is below \<open>2 ^ 53\<close> and either at least \<open>2 ^ 52\<close> or at the exponent of the subnormal
  numbers.
\<close>

lemma scale_range:
  "scale a e = (m, e') \<Longrightarrow> m < 2 ^ 53 \<and> (2 ^ 52 \<le> m \<or> e' \<le> - 1074)"
proof (induction a e rule: scale.induct)
  case (1 a e)
  show ?case
  proof (cases "2 ^ 53 \<le> a")
    case True
    then have "scale (a / 2) (e + 1) = (m, e')" using "1.prems" by (simp add: scale_down)
    with True show ?thesis by (rule "1.IH"(1))
  next
    case False
    show ?thesis
    proof (cases "a < 2 ^ 52 \<and> - 1074 < e")
      case True
      then have "scale (a * 2) (e - 1) = (m, e')" using "1.prems" by (simp add: scale_up)
      with False True show ?thesis by (rule "1.IH"(2))
    next
      case F2: False
      then have "scale a e = (a, e)" using False by (subst scale.simps) auto
      then have "m = a" "e' = e" using "1.prems" by simp_all
      then show ?thesis using False F2 by auto
    qed
  qed
qed


lemma scale_value: "scale a e = (m, e') \<Longrightarrow> m * pow2 e' = a * pow2 e"
proof (induction a e rule: scale.induct)
  case (1 a e)
  note up = pow2_step
  show ?case
  proof (cases "2 ^ 53 \<le> a")
    case True
    then have "scale (a / 2) (e + 1) = (m, e')" using "1.prems" by (simp add: scale_down)
    then have "m * pow2 e' = a / 2 * pow2 (e + 1)" using True by (rule "1.IH"(1) [rotated])
    then show ?thesis by (simp add: up)
  next
    case False
    show ?thesis
    proof (cases "a < 2 ^ 52 \<and> - 1074 < e")
      case True
      then have "scale (a * 2) (e - 1) = (m, e')" using "1.prems" by (simp add: scale_up)
      then have "m * pow2 e' = a * 2 * pow2 (e - 1)" using False True by (rule "1.IH"(2) [rotated 2])
      moreover have "pow2 e = 2 * pow2 (e - 1)" using up [of "e - 1"] by simp
      ultimately show ?thesis by simp
    next
      case F2: False
      then have "scale a e = (a, e)" using False by (subst scale.simps) auto
      then show ?thesis using "1.prems" by simp
    qed
  qed
qed


lemma floor_rat_one_numeral: "\<lfloor>(1 :: rat) / numeral b\<rfloor> = 1 div numeral b"
  using floor_divide_of_int_eq [of 1 "numeral b", where ?'a = rat] by simp

lemmas b64_eval = binary64_def scale_down scale_up scale_stop scale_stop_subnormal round_even_def
  pow2_def Let_def floor_rat_numeral floor_rat_one_numeral

lemma binary64_one: "binary64 1 = 1"
  by (simp add: b64_eval)

lemma binary64_nine_thirds: "binary64 (9 * binary64 (1 / 3)) = 3"
  by (simp add: b64_eval)


text \<open>The loops in double arithmetic.\<close>

lemma pushPairs64_eq:
  "pushPairs64 e share fs ts acc =
     acc @ map (\<lambda>(f, t). \<lparr>fromIndex = f, toIndex = t, itemId = edge_itemId e,
                          amount = binary64 (edge_amount e * share)\<rparr>) (List.product fs ts)"
  by (simp add: pushPairs64_def fold_push fold_push_lists product_concat map_concat comp_def)

lemma distributeEdge64_emit:
  assumes "getIndexes m (edge_from e) \<noteq> []" and "getIndexes m (edge_to e) \<noteq> []"
  shows "distributeEdge64 m e acc =
     Some (acc @ map (\<lambda>(f, t). \<lparr>fromIndex = f, toIndex = t, itemId = edge_itemId e,
              amount = binary64 (edge_amount e *
                         binary64 (1 / of_nat (length (getIndexes m (edge_from e)))))\<rparr>)
            (List.product (getIndexes m (edge_from e)) (getIndexes m (edge_to e))))"
  using assms by (simp add: distributeEdge64_def Let_def jsdiv64_def pushPairs64_eq)




lemma sum_list_const_amount:
  assumes "\<forall>x \<in> set xs. amount x = a"
  shows "sum_list (map amount xs) = a * of_nat (length xs)"
  using assms by (induction xs) (simp_all add: algebra_simps)




lemma reactFlowEdges_unique:
  "distinct (map edge_id (reactFlowEdges ext its es)) \<and>
   edge_id ` set (reactFlowEdges ext its es) = edgeId ` set es \<and>
   (\<forall>r \<in> set (reactFlowEdges ext its es).
      \<exists>i < length es. r = reactFlowEdge ext its (es ! i) \<and>
         (\<forall>j < i. edgeIdentity (es ! j) \<noteq> edgeIdentity (es ! i))) \<and>
   (\<forall>e \<in> set es.
      length (filter (\<lambda>r. edge_id r = edgeId e) (reactFlowEdges ext its es)) = 1)"
proof -
  have a: "distinct (map edge_id (reactFlowEdges ext its es))"
    unfolding reactFlowEdges_def by (rule dedupeEdges_distinct) simp_all
  have b: "edge_id ` set (reactFlowEdges ext its es) = edgeId ` set es"
    using dedupeEdges_ids [of "[]" "{}" ext its es] by (simp add: reactFlowEdges_def)
  have c: "\<exists>i < length es. r = reactFlowEdge ext its (es ! i) \<and>
         (\<forall>j < i. edgeIdentity (es ! j) \<noteq> edgeIdentity (es ! i))"
    if r: "r \<in> set (reactFlowEdges ext its es)" for r
    using dedupeEdges_first [of r ext its es "[]" "{}"] r
    by (simp add: reactFlowEdges_def edgeId_identity)
  have d: "length (filter (\<lambda>r. edge_id r = edgeId e) (reactFlowEdges ext its es)) = 1"
    if e: "e \<in> set es" for e
  proof (rule distinct_one_match)
    show "distinct (map edge_id (reactFlowEdges ext its es))" by (rule a)
    show "edgeId e \<in> edge_id ` set (reactFlowEdges ext its es)" using e b by blast
  qed
  show ?thesis using a b c d by blast
qed

text \<open>The equations that evaluate the functions on the concrete inputs.\<close>

lemmas eval_defs = newEntries_def expandNode_def splitSource_def jsdiv_def nodeKey_def
  getOreSources_def getIndexes_def initialState_def Math_ceil_def servedDemand_def
  example_rates_def example_excavator_def example_smelter_def example_edge_def
  show_nat_small show_nat_large digit_char_def Let_def


section \<open>The claims\<close>

subsection \<open>Target amount\<close>

text \<open>
  C8: a target amount that is zero or negative is replaced by 1 before the production flow
  is built: the provider is called with 1, the whole result is the one for the target
  amount 1, and the call still returns a flow graph. A strictly positive target amount
  reaches the provider unchanged.
\<close>

theorem target_amount_fallback:
  "(targetAmount p \<le> 0 \<longrightarrow>
      validAmount (targetAmount p) = 1 \<and>
      baseGraph ext p = buildProductionFlow ext (targetItemId p) 1
                          (oreQualityByItem (oreSourcesByItem p)) (catalogue p) \<and>
      generateReactFlowData ext p = generateReactFlowData ext (p\<lparr>targetAmount := 1\<rparr>)) \<and>
   (targetAmount p > 0 \<longrightarrow>
      validAmount (targetAmount p) = targetAmount p \<and>
      baseGraph ext p = buildProductionFlow ext (targetItemId p) (targetAmount p)
                          (oreQualityByItem (oreSourcesByItem p)) (catalogue p)) \<and>
   (\<exists>fd. generateReactFlowData ext p = Some fd)"
proof -
  have a: "targetAmount p \<le> 0 \<Longrightarrow> baseGraph ext p = baseGraph ext (p\<lparr>targetAmount := 1\<rparr>)"
    by (simp add: baseGraph_def validAmount_def)
  obtain ns es where g: "baseGraph ext p = (ns, es)" by (cases "baseGraph ext p")
  obtain st where st: "expandNodes (ORE_QUALITY_RATES ext) (oreSourcesByItem p) ns initialState = Some st"
    using expandNodes_total by blast
  obtain xs where xs: "distributeEdges (nodeKeyToExpandedIndexes st) es [] = Some xs"
    using distributeEdges_total [of "nodeKeyToExpandedIndexes st" es "[]"] by auto
  have total: "\<exists>fd. generateReactFlowData ext p = Some fd"
    by (simp add: generateReactFlowData_def g st xs Let_def)
  show ?thesis using a total
    by (auto simp add: generateReactFlowData_def validAmount_def baseGraph_def)
qed

theorem target_amount_fallback_witness:
  "validAmount (targetAmount (example_params 0 Map.empty)) = 1 \<and>
   validAmount (targetAmount (example_params (- 3) Map.empty)) = 1 \<and>
   generateReactFlowData example_ext (example_params (- 3) Map.empty) =
     generateReactFlowData example_ext (example_params 1 Map.empty) \<and>
   baseGraph example_ext (example_params (- 3) Map.empty) =
     ([example_excavator 60, example_smelter], [example_edge 60]) \<and>
   baseGraph example_ext (example_params 7 Map.empty) =
     ([example_excavator 420, example_smelter], [example_edge 420])"
  using target_amount_fallback [of "example_params 0 Map.empty" example_ext]
    target_amount_fallback [of "example_params (- 3) Map.empty" example_ext]
    target_amount_fallback [of "example_params 7 Map.empty" example_ext]
  by (simp add: example_params_def example_ext_def)

subsection \<open>Distribution of the edges\<close>

text \<open>
  C3 (as amended): a base edge whose from-key resolves to the indices \<open>fs\<close> (F of them, at
  least one) and whose to-key resolves to \<open>ts\<close> (T of them, at least one) appends exactly
  one expanded edge per pair of the cartesian product of \<open>fs\<close> and \<open>ts\<close>, F times T edges
  in all, each with the item identifier of the base edge and with the amount of the base
  edge times the share \<open>1 / F\<close>, the share and the product rounded as double arithmetic
  rounds them. For an amount of 9, three source indices and one destination index these are
  three edges of amount 3 into the same destination.
\<close>

theorem edge_fan_out:
  assumes "getIndexes m (edge_from e) = fs" and "fs \<noteq> []"
    and "getIndexes m (edge_to e) = ts" and "ts \<noteq> []"
  shows "distributeEdge64 m e acc =
           Some (acc @ map (\<lambda>(f, t). \<lparr>fromIndex = f, toIndex = t, itemId = edge_itemId e,
                                      amount = binary64 (edge_amount e *
                                                 binary64 (1 / of_nat (length fs)))\<rparr>)
                         (List.product fs ts)) \<and>
         length (List.product fs ts) = length fs * length ts \<and>
         (\<forall>a b c d. fs = [a, b, c] \<and> ts = [d] \<and> edge_amount e = 9 \<longrightarrow>
            distributeEdge64 m e acc =
              Some (acc @ [\<lparr>fromIndex = a, toIndex = d, itemId = edge_itemId e, amount = 3\<rparr>,
                           \<lparr>fromIndex = b, toIndex = d, itemId = edge_itemId e, amount = 3\<rparr>,
                           \<lparr>fromIndex = c, toIndex = d, itemId = edge_itemId e, amount = 3\<rparr>]))"
proof -
  have main: "distributeEdge64 m e acc =
           Some (acc @ map (\<lambda>(f, t). \<lparr>fromIndex = f, toIndex = t, itemId = edge_itemId e,
                                      amount = binary64 (edge_amount e *
                                                 binary64 (1 / of_nat (length fs)))\<rparr>)
                         (List.product fs ts))"
    using assms distributeEdge64_emit [of m e acc] by simp
  show ?thesis
    by (simp add: main length_product binary64_nine_thirds)
qed

theorem edge_fan_out_witness:
  "distributeEdge64 example_map (example_edge 9) [] =
     Some [\<lparr>fromIndex = 0, toIndex = 3, itemId = ''iron_ore'', amount = 3\<rparr>,
           \<lparr>fromIndex = 1, toIndex = 3, itemId = ''iron_ore'', amount = 3\<rparr>,
           \<lparr>fromIndex = 2, toIndex = 3, itemId = ''iron_ore'', amount = 3\<rparr>]"
  using edge_fan_out [of example_map "example_edge 9" "[0, 1, 2]" "[3]" "[]"]
  by (simp add: example_map_def example_edge_def getIndexes_def binary64_nine_thirds)

text \<open>
  The amount is not always the quotient of the amount by F: for an amount of 10 and three
  source indices each edge carries 3.333333333333333, the double below the rounded quotient
  3.3333333333333335.
\<close>

theorem edge_fan_out_counterexample:
  "map_option (map amount) (distributeEdge64 example_map (example_edge 10) []) =
     Some [3752999689475413 / 1125899906842624, 3752999689475413 / 1125899906842624,
           3752999689475413 / 1125899906842624] \<and>
   binary64 (edge_amount (example_edge 10) / 3) = 7505999378950827 / 2251799813685248 \<and>
   (3752999689475413 / 1125899906842624 :: rat) < 7505999378950827 / 2251799813685248 \<and>
   (3752999689475413 / 1125899906842624 :: rat) < edge_amount (example_edge 10) / 3"
  by (simp add: example_map_def example_edge_def getIndexes_def distributeEdge64_def
        pushPairs64_def jsdiv64_def b64_eval)

text \<open>
  C7: a base edge one of whose keys has no index in the mapping (the key is absent, or its
  list is empty) leaves the list of expanded edges as it is, without an error, and the
  edges before and after it are distributed as if it were not in the list.
\<close>

theorem dangling_edge_dropped:
  assumes "getIndexes m (edge_from e) = [] \<or> getIndexes m (edge_to e) = []"
  shows "distributeEdge m e acc = Some acc \<and>
         distributeEdges m (before @ e # after) acc = distributeEdges m (before @ after) acc \<and>
         (\<exists>r. distributeEdges m (before @ e # after) acc = Some r)"
proof -
  have a: "distributeEdge m e acc' = Some acc'" for acc'
    using assms by (rule distributeEdge_drop)
  obtain r where r: "distributeEdges m before acc = Some r"
    using distributeEdges_total [of m before acc] by blast
  have "distributeEdges m (before @ e # after) acc = distributeEdges m (before @ after) acc"
    by (simp add: distributeEdges_append r a)
  moreover have "\<exists>r. distributeEdges m (before @ e # after) acc = Some r"
    using distributeEdges_total [of m "before @ e # after" acc] by blast
  ultimately show ?thesis using a by simp
qed

theorem dangling_edge_dropped_witness:
  "getIndexes example_map (edge_to dangling_edge) = [] \<and>
   distributeEdge example_map dangling_edge [] = Some [] \<and>
   distributeEdges example_map [dangling_edge, example_edge 9] [] =
     distributeEdges example_map [example_edge 9] []"
  using dangling_edge_dropped [of example_map dangling_edge "[]" "[]" "[example_edge 9]"]
  by (simp add: example_map_def dangling_edge_def getIndexes_def)

text \<open>
  C2 (as amended): for a base edge of amount A whose source key resolves to F indices and
  whose destination key resolves to T indices (both at least one), the F times T emitted
  edges all carry the same amount \<open>a\<close>, the product of A and the share \<open>1 / F\<close> as double
  arithmetic rounds them, so the emitted amounts sum to F times T times \<open>a\<close>. Where the
  share is exact, that is F times \<open>a\<close> is A (a source that is not split is such a case),
  the sum is A times T: it is A when the destination is not split, and in general the
  amounts of the edges that enter any one destination index sum to A (the destination
  indices are pairwise different, as they are in every mapping that the expansion of the
  nodes produces).
\<close>

theorem edge_amount_sum:
  assumes "getIndexes m (edge_from e) = fs" and "fs \<noteq> []"
    and "getIndexes m (edge_to e) = ts" and "ts \<noteq> []"
    and "a = binary64 (edge_amount e * binary64 (1 / of_nat (length fs)))"
  shows "\<exists>new. distributeEdge64 m e acc = Some (acc @ new) \<and>
           length new = length fs * length ts \<and>
           (\<forall>x \<in> set new. amount x = a) \<and>
           sum_list (map amount new) = a * of_nat (length fs * length ts) \<and>
           (a * of_nat (length fs) = edge_amount e \<longrightarrow>
              sum_list (map amount new) = edge_amount e * of_nat (length ts) \<and>
              (length ts = 1 \<longrightarrow> sum_list (map amount new) = edge_amount e) \<and>
              (distinct ts \<longrightarrow>
                (\<forall>t \<in> set ts. sum_list (map amount (filter (\<lambda>x. toIndex x = t) new)) = edge_amount e))) \<and>
           (length fs = 1 \<and> binary64 (edge_amount e) = edge_amount e \<longrightarrow> a = edge_amount e) \<and>
           (\<forall>rates srcs ns st. expandNodes rates srcs ns initialState = Some st \<and>
              m = nodeKeyToExpandedIndexes st \<longrightarrow> distinct ts)"
proof -
  let ?new = "map (\<lambda>(f, t). \<lparr>fromIndex = f, toIndex = t, itemId = edge_itemId e, amount = a\<rparr>)
                (List.product fs ts)"
  have p1: "distributeEdge64 m e acc = Some (acc @ ?new)"
    using assms distributeEdge64_emit [of m e acc] by simp
  have p2: "length ?new = length fs * length ts"
    by (simp add: length_product)
  have p3: "\<forall>x \<in> set ?new. amount x = a"
    by auto
  have p4: "sum_list (map amount ?new) = a * of_nat (length fs * length ts)"
    using sum_list_const_amount [OF p3] by (simp only: p2)
  have per: "sum_list (map amount (filter (\<lambda>x. toIndex x = t) ?new)) = a * of_nat (length fs)"
    if "distinct ts" and "t \<in> set ts" for t
    by (simp add: filter_product_target [OF that] comp_def sum_list_triv)
  have p5: "a * of_nat (length fs) = edge_amount e \<longrightarrow>
              sum_list (map amount ?new) = edge_amount e * of_nat (length ts) \<and>
              (length ts = 1 \<longrightarrow> sum_list (map amount ?new) = edge_amount e) \<and>
              (distinct ts \<longrightarrow>
                (\<forall>t \<in> set ts. sum_list (map amount (filter (\<lambda>x. toIndex x = t) ?new)) = edge_amount e))"
  proof
    assume ex: "a * of_nat (length fs) = edge_amount e"
    have s: "sum_list (map amount ?new) = edge_amount e * of_nat (length ts)"
      using p4 ex by (simp add: algebra_simps)
    have s1: "length ts = 1 \<longrightarrow> sum_list (map amount ?new) = edge_amount e"
      using s by simp
    have s2: "distinct ts \<longrightarrow>
                (\<forall>t \<in> set ts. sum_list (map amount (filter (\<lambda>x. toIndex x = t) ?new)) = edge_amount e)"
      using per ex by simp
    show "sum_list (map amount ?new) = edge_amount e * of_nat (length ts) \<and>
              (length ts = 1 \<longrightarrow> sum_list (map amount ?new) = edge_amount e) \<and>
              (distinct ts \<longrightarrow>
                (\<forall>t \<in> set ts. sum_list (map amount (filter (\<lambda>x. toIndex x = t) ?new)) = edge_amount e))"
      by (intro conjI s s1 s2)
  qed
  have p6: "length fs = 1 \<and> binary64 (edge_amount e) = edge_amount e \<longrightarrow> a = edge_amount e"
    using assms(5) by (simp add: binary64_one)
  have p7: "\<forall>rates srcs ns st. expandNodes rates srcs ns initialState = Some st \<and>
              m = nodeKeyToExpandedIndexes st \<longrightarrow> distinct ts"
    using expandNodes_distinct_indexes assms(3) by blast
  show ?thesis
    by (rule exI [of _ ?new]) (intro conjI p1 p2 p3 p4 p5 p6 p7)
qed

theorem edge_amount_sum_witness:
  "map_option (\<lambda>xs. sum_list (map amount xs)) (distributeEdge64 example_map (example_edge 9) []) = Some 9 \<and>
   map_option (map amount) (distributeEdge64 example_map (example_edge 9) []) = Some [3, 3, 3] \<and>
   map_option (map toIndex) (distributeEdge64 example_map (example_edge 9) []) = Some [3, 3, 3]"
  using edge_amount_sum [of example_map "example_edge 9" "[0, 1, 2]" "[3]" 3 "[]"]
  by (simp add: example_map_def example_edge_def getIndexes_def distributeEdge64_def
        pushPairs64_def jsdiv64_def binary64_nine_thirds)

text \<open>
  The claim as it is written fails when the destination is split: a smelter feeding an
  excavator with two sources has one source index, and the two emitted edges carry 10
  each, 20 in all, for a base edge of amount 10. It also fails by rounding: an amount of 1
  over six source indices gives six edges whose amounts sum to less than 1.
\<close>

theorem edge_amount_sum_counterexample:
  "map_option (\<lambda>st. getIndexes (nodeKeyToExpandedIndexes st) (edge_from inverse_edge))
     (expandNodes example_rates [''iron_ore'' \<mapsto> [''impure'', ''normal'']]
        [example_smelter, example_excavator 60] initialState) = Some [0] \<and>
   Option.bind
     (expandNodes example_rates [''iron_ore'' \<mapsto> [''impure'', ''normal'']]
        [example_smelter, example_excavator 60] initialState)
     (\<lambda>st. distributeEdge64 (nodeKeyToExpandedIndexes st) inverse_edge []) =
     Some [\<lparr>fromIndex = 0, toIndex = 1, itemId = ''iron_bar'', amount = 10\<rparr>,
           \<lparr>fromIndex = 0, toIndex = 2, itemId = ''iron_bar'', amount = 10\<rparr>] \<and>
   edge_amount inverse_edge = 10 \<and>
   map_option (\<lambda>xs. sum_list (map amount xs))
     (Option.bind
        (expandNodes example_rates [''iron_ore'' \<mapsto> [''impure'', ''normal'']]
           [example_smelter, example_excavator 60] initialState)
        (\<lambda>st. distributeEdge64 (nodeKeyToExpandedIndexes st) inverse_edge [])) = Some 20 \<and>
   map_option (\<lambda>xs. (length xs, sum_list (map amount xs)))
     (distributeEdge64 six_way_map (example_edge 1) []) =
     Some (6, 18014398509481983 / 18014398509481984) \<and>
   edge_amount (example_edge 1) = 1"
proof -
  have ten: "binary64 10 = 10" by (simp add: b64_eval)
  have one: "binary64 1 = 1" by (simp add: b64_eval)
  have sixth: "binary64 (binary64 (1 / 6)) = 6004799503160661 / 36028797018963968"
    by (simp add: b64_eval)
  show ?thesis
    by (simp add: eval_defs inverse_edge_def six_way_map_def distributeEdge64_def pushPairs64_def
          jsdiv64_def ten one sixth)
qed

subsection \<open>Expansion of the sources\<close>






text \<open>
  C6: the expansion of an excavator node appends one entry per source, whose output amount
  is the yield rate of that source. For a demand of 100 and two sources with the rates 5
  and 10 these are two entries: the first serves 50 with 10 buildings, the second serves 50
  with 5 buildings.
\<close>

theorem two_origin_split:
  assumes "buildingId n = ''ore_excavator''" and "getOreSources srcs (outputItem n) = qs"
  shows "\<exists>new. newEntries rates srcs n st = Some new \<and> length new = length qs \<and>
     map (\<lambda>entry. outputAmount (node entry)) new = map rates qs \<and>
     (\<forall>q1 q2. qs = [q1, q2] \<and> rates q1 = 5 \<and> rates q2 = 10 \<and>
               buildingCount n * outputAmount n = 100 \<longrightarrow>
        map servedDemand new = [50, 50] \<and>
        map (\<lambda>entry. buildingCount (node entry)) new = [10, 5] \<and>
        map (\<lambda>entry. outputAmount (node entry)) new = [5, 10])"
proof -
  let ?g = "\<lambda>q j. originEntry rates n (nodeKey n) (buildingCount n * outputAmount n)
                        (1 / of_nat (length qs)) (length qs) q j"
  let ?new = "map (\<lambda>(j, q). ?g q j) (zip [0..<0 + length qs] qs)"
  have a: "newEntries rates srcs n st = Some ?new"
    by (rule newEntries_excavator [OF assms])
  have b: "length ?new = length qs" by simp
  have "map (\<lambda>entry. outputAmount (node entry)) ?new =
          map (\<lambda>(j, q). rates q) (zip [0..<0 + length qs] qs)"
    by (simp add: originEntry_def case_prod_unfold comp_def)
  then have c: "map (\<lambda>entry. outputAmount (node entry)) ?new = map rates qs"
    by (simp only: map_zip_index)
  have d: "\<forall>q1 q2. qs = [q1, q2] \<and> rates q1 = 5 \<and> rates q2 = 10 \<and>
               buildingCount n * outputAmount n = 100 \<longrightarrow>
        map servedDemand ?new = [50, 50] \<and>
        map (\<lambda>entry. buildingCount (node entry)) ?new = [10, 5] \<and>
        map (\<lambda>entry. outputAmount (node entry)) ?new = [5, 10]"
    by (auto simp add: originEntry_def servedDemand_def upt_rec)
  show ?thesis using a b c d by blast
qed

theorem two_origin_split_witness:
  "map_option (\<lambda>st. map (\<lambda>entry. (buildingCount (node entry), outputAmount (node entry),
                                   servedDemand entry, sourceIndex entry, sourceCount entry))
                      (expandedNodes st))
     (expandNodes example_rates [''iron_ore'' \<mapsto> [''impure'', ''normal'']]
        [example_excavator 100] initialState) =
     Some [(10, 5, 50, Some 0, Some 2), (5, 10, 50, Some 1, Some 2)] \<and>
   map_option (map servedDemand)
     (newEntries example_rates [''iron_ore'' \<mapsto> [''impure'', ''normal'']]
        (example_excavator 100) initialState) = Some [50, 50]"
  using two_origin_split [of "example_excavator 100"
      "[''iron_ore'' \<mapsto> [''impure'', ''normal'']]" "[''impure'', ''normal'']"
      example_rates initialState]
  by (simp add: eval_defs)

subsection \<open>Assembly of the graph\<close>

text \<open>
  C4: the edges of the flow graph that the function returns are the result of the loop
  with \<^verbatim>\<open>edgeIdSet\<close> over the expanded edges. Their identifiers are pairwise
  different, and two expanded edges have the same identifier exactly when they agree on
  source index, target index and item. Every identifier of an expanded edge occurs exactly
  once in the flow graph, and the edge kept for it is built from the first expanded edge
  with that identity: every later edge with the same identity is discarded. The loop has
  these properties on every list of expanded edges.
\<close>

theorem edge_identity_unique:
  "\<exists>st xs fd.
     expandNodes (ORE_QUALITY_RATES ext) (oreSourcesByItem p) (fst (baseGraph ext p)) initialState = Some st \<and>
     distributeEdges (nodeKeyToExpandedIndexes st) (snd (baseGraph ext p)) [] = Some xs \<and>
     generateReactFlowData ext p = Some fd \<and>
     edges fd = reactFlowEdges ext (items p) xs \<and>
     distinct (map edge_id (edges fd)) \<and>
     edge_id ` set (edges fd) = edgeId ` set xs \<and>
     (\<forall>r \<in> set (edges fd).
        \<exists>i < length xs. r = reactFlowEdge ext (items p) (xs ! i) \<and>
           (\<forall>j < i. edgeIdentity (xs ! j) \<noteq> edgeIdentity (xs ! i))) \<and>
     (\<forall>x \<in> set xs. length (filter (\<lambda>r. edge_id r = edgeId x) (edges fd)) = 1) \<and>
     (\<forall>e1 e2. edgeId e1 = edgeId e2 \<longleftrightarrow> edgeIdentity e1 = edgeIdentity e2) \<and>
     (\<forall>es. distinct (map edge_id (reactFlowEdges ext (items p) es)) \<and>
        edge_id ` set (reactFlowEdges ext (items p) es) = edgeId ` set es \<and>
        (\<forall>r \<in> set (reactFlowEdges ext (items p) es).
           \<exists>i < length es. r = reactFlowEdge ext (items p) (es ! i) \<and>
              (\<forall>j < i. edgeIdentity (es ! j) \<noteq> edgeIdentity (es ! i))) \<and>
        (\<forall>e \<in> set es.
           length (filter (\<lambda>r. edge_id r = edgeId e) (reactFlowEdges ext (items p) es)) = 1))"
proof -
  obtain st xs where st: "expandNodes (ORE_QUALITY_RATES ext) (oreSourcesByItem p) (fst (baseGraph ext p)) initialState = Some st"
    and xs: "distributeEdges (nodeKeyToExpandedIndexes st) (snd (baseGraph ext p)) [] = Some xs"
    and fd: "generateReactFlowData ext p =
       Some \<lparr>nodes = reactFlowNodes
                 (dagre_layout ext (map node_name [0..<length (expandedNodes st)])
                    (map (\<lambda>e. (node_name (fromIndex e), node_name (toIndex e))) xs))
                 (expandedNodes st),
             edges = reactFlowEdges ext (items p) xs\<rparr>"
    using generateReactFlowData_shape [of ext p] by blast
  let ?fd = "\<lparr>nodes = reactFlowNodes
                 (dagre_layout ext (map node_name [0..<length (expandedNodes st)])
                    (map (\<lambda>e. (node_name (fromIndex e), node_name (toIndex e))) xs))
                 (expandedNodes st),
             edges = reactFlowEdges ext (items p) xs\<rparr>"
  have e: "edges ?fd = reactFlowEdges ext (items p) xs" by simp
  have u: "distinct (map edge_id (edges ?fd)) \<and>
     edge_id ` set (edges ?fd) = edgeId ` set xs \<and>
     (\<forall>r \<in> set (edges ?fd).
        \<exists>i < length xs. r = reactFlowEdge ext (items p) (xs ! i) \<and>
           (\<forall>j < i. edgeIdentity (xs ! j) \<noteq> edgeIdentity (xs ! i))) \<and>
     (\<forall>x \<in> set xs. length (filter (\<lambda>r. edge_id r = edgeId x) (edges ?fd)) = 1)"
    unfolding e by (rule reactFlowEdges_unique)
  have i: "\<forall>e1 e2. edgeId e1 = edgeId e2 \<longleftrightarrow> edgeIdentity e1 = edgeIdentity e2"
    using edgeId_identity by blast
  have g: "\<forall>es. distinct (map edge_id (reactFlowEdges ext (items p) es)) \<and>
        edge_id ` set (reactFlowEdges ext (items p) es) = edgeId ` set es \<and>
        (\<forall>r \<in> set (reactFlowEdges ext (items p) es).
           \<exists>i < length es. r = reactFlowEdge ext (items p) (es ! i) \<and>
              (\<forall>j < i. edgeIdentity (es ! j) \<noteq> edgeIdentity (es ! i))) \<and>
        (\<forall>e \<in> set es.
           length (filter (\<lambda>r. edge_id r = edgeId e) (reactFlowEdges ext (items p) es)) = 1)"
    by (intro allI) (rule reactFlowEdges_unique)
  note u1 = u [THEN conjunct1]
    and u2 = u [THEN conjunct2, THEN conjunct1]
    and u3 = u [THEN conjunct2, THEN conjunct2, THEN conjunct1]
    and u4 = u [THEN conjunct2, THEN conjunct2, THEN conjunct2]
  show ?thesis
    by (rule exI [of _ st], rule exI [of _ xs], rule exI [of _ ?fd])
      (intro conjI st xs fd e u1 u2 u3 u4 i g)
qed

theorem edge_identity_unique_witness:
  "map_option (\<lambda>fd. map (\<lambda>r. (edge_id r, source r, target r, label r)) (edges fd))
     (generateReactFlowData collision_ext (example_params 1 Map.empty)) =
     Some [(''node_0-node_1-iron_ore'', ''node_0'', ''node_1'', ''iron_ore (60.0/min)'')] \<and>
   map_option (\<lambda>fd. distinct (map edge_id (edges fd)))
     (generateReactFlowData collision_ext (example_params 1 Map.empty)) = Some True \<and>
   edgeIdentity (colliding_edges ! 0) = edgeIdentity (colliding_edges ! 2) \<and>
   reactFlowEdges example_ext () colliding_edges =
     [\<lparr>edge_id = ''node_0-node_2-iron_ore'', source = ''node_0'', target = ''node_2'',
       edge_type = ''default'', stroke = ''gray'', label = ''iron_ore (3.0/min)''\<rparr>,
      \<lparr>edge_id = ''node_1-node_2-iron_ore'', source = ''node_1'', target = ''node_2'',
       edge_type = ''default'', stroke = ''gray'', label = ''iron_ore (4.0/min)''\<rparr>]"
proof -
  let ?p = "example_params 1 Map.empty"
  from edge_identity_unique [of collision_ext ?p]
  obtain fd where fd: "generateReactFlowData collision_ext ?p = Some fd"
    and dist: "distinct (map edge_id (edges fd))"
    by (elim exE conjE)
  have a: "map_option (\<lambda>fd. distinct (map edge_id (edges fd)))
     (generateReactFlowData collision_ext ?p) = Some True"
    using dist by (simp add: fd)
  note pipeline = generateReactFlowData_def baseGraph_def validAmount_def collision_ext_def
          example_ext_def example_params_def expandNode_def splitSource_def jsdiv_def nodeKey_def
          getOreSources_def getIndexes_def initialState_def example_rates_def
          example_excavator_def example_smelter_def example_edge_def show_nat_small digit_char_def
          distributeEdge_def pushPairs_def Let_def node_name_def normal_def
  have b: "map_option (\<lambda>fd. map (\<lambda>r. (edge_id r, source r, target r, label r)) (edges fd))
     (generateReactFlowData collision_ext ?p) =
     Some [(''node_0-node_1-iron_ore'', ''node_0'', ''node_1'', ''iron_ore (60.0/min)'')]"
    by (simp add: pipeline reactFlowEdges_def reactFlowEdge_def edgeId_def
        example_toFixed1_def floor_rat_numeral show_nat_large)
  have c: "reactFlowEdges example_ext () colliding_edges =
     [\<lparr>edge_id = ''node_0-node_2-iron_ore'', source = ''node_0'', target = ''node_2'',
       edge_type = ''default'', stroke = ''gray'', label = ''iron_ore (3.0/min)''\<rparr>,
      \<lparr>edge_id = ''node_1-node_2-iron_ore'', source = ''node_1'', target = ''node_2'',
       edge_type = ''default'', stroke = ''gray'', label = ''iron_ore (4.0/min)''\<rparr>]"
    by (simp add: colliding_edges_def reactFlowEdges_def reactFlowEdge_def edgeId_def node_name_def
        show_nat_small digit_char_def example_ext_def example_toFixed1_def Let_def
        floor_rat_numeral)
  have d: "edgeIdentity (colliding_edges ! 0) = edgeIdentity (colliding_edges ! 2)"
    by (simp add: colliding_edges_def edgeIdentity_def)
  show ?thesis using a b c d by (intro conjI)
qed

text \<open>
  C9: every expanded edge has a source index and a target index below the number of
  expanded nodes, the identifiers of the output nodes are the names of the indices below
  that number, and so the source and the target of every edge of the flow graph are
  identifiers of output nodes.
\<close>

theorem edge_endpoints_exist:
  "\<exists>st xs fd.
     expandNodes (ORE_QUALITY_RATES ext) (oreSourcesByItem p) (fst (baseGraph ext p)) initialState = Some st \<and>
     distributeEdges (nodeKeyToExpandedIndexes st) (snd (baseGraph ext p)) [] = Some xs \<and>
     generateReactFlowData ext p = Some fd \<and>
     map node_id (nodes fd) = map node_name [0..<length (expandedNodes st)] \<and>
     (\<forall>x \<in> set xs. fromIndex x < length (expandedNodes st) \<and> toIndex x < length (expandedNodes st)) \<and>
     (\<forall>r \<in> set (edges fd). source r \<in> node_id ` set (nodes fd) \<and> target r \<in> node_id ` set (nodes fd))"
proof -
  obtain st xs where st: "expandNodes (ORE_QUALITY_RATES ext) (oreSourcesByItem p) (fst (baseGraph ext p)) initialState = Some st"
    and xs: "distributeEdges (nodeKeyToExpandedIndexes st) (snd (baseGraph ext p)) [] = Some xs"
    and fd: "generateReactFlowData ext p =
       Some \<lparr>nodes = reactFlowNodes
                 (dagre_layout ext (map node_name [0..<length (expandedNodes st)])
                    (map (\<lambda>e. (node_name (fromIndex e), node_name (toIndex e))) xs))
                 (expandedNodes st),
             edges = reactFlowEdges ext (items p) xs\<rparr>"
    using generateReactFlowData_shape [of ext p] by blast
  let ?fd = "\<lparr>nodes = reactFlowNodes
                 (dagre_layout ext (map node_name [0..<length (expandedNodes st)])
                    (map (\<lambda>e. (node_name (fromIndex e), node_name (toIndex e))) xs))
                 (expandedNodes st),
             edges = reactFlowEdges ext (items p) xs\<rparr>"
  have ids: "map node_id (nodes ?fd) = map node_name [0..<length (expandedNodes st)]"
    by (simp add: reactFlowNodes_ids)
  have inv: "indexesBelow st"
    using indexesBelow_initial st by (rule indexesBelow_expandNodes)
  have below: "fromIndex x < length (expandedNodes st) \<and> toIndex x < length (expandedNodes st)"
    if "x \<in> set xs" for x
    using distributeEdges_members [OF xs that] inv by (auto simp add: indexesBelow_def)
  have idset: "node_id ` set (nodes ?fd) = node_name ` {0..<length (expandedNodes st)}"
  proof -
    have "node_id ` set (nodes ?fd) = set (map node_id (nodes ?fd))" by simp
    also have "\<dots> = set (map node_name [0..<length (expandedNodes st)])" by (simp only: ids)
    finally show ?thesis by simp
  qed
  have ends: "source r \<in> node_id ` set (nodes ?fd) \<and> target r \<in> node_id ` set (nodes ?fd)"
    if r: "r \<in> set (edges ?fd)" for r
  proof -
    obtain x where x: "x \<in> set xs" "r = reactFlowEdge ext (items p) x"
      using r reactFlowEdges_from [of r ext "items p" xs] by auto
    have "source r = node_name (fromIndex x)" "target r = node_name (toIndex x)"
      using x(2) by (simp_all add: reactFlowEdge_def)
    then show ?thesis using below [OF x(1)] unfolding idset by simp
  qed
  show ?thesis
    using st xs fd ids below ends by blast
qed

theorem edge_endpoints_exist_witness:
  "map_option (\<lambda>fd. list_all (\<lambda>r. source r \<in> node_id ` set (nodes fd) \<and>
                                     target r \<in> node_id ` set (nodes fd)) (edges fd))
     (generateReactFlowData example_ext (example_params 1 [''iron_ore'' \<mapsto> [''impure'', ''normal'']]))
     = Some True \<and>
   map_option (\<lambda>fd. map node_id (nodes fd))
     (generateReactFlowData example_ext (example_params 1 [''iron_ore'' \<mapsto> [''impure'', ''normal'']]))
     = Some [''node_0'', ''node_1'', ''node_2''] \<and>
   map_option (\<lambda>fd. map (\<lambda>r. (source r, target r, label r)) (edges fd))
     (generateReactFlowData example_ext (example_params 1 [''iron_ore'' \<mapsto> [''impure'', ''normal'']]))
     = Some [(''node_0'', ''node_2'', ''iron_ore (30.0/min)''),
             (''node_1'', ''node_2'', ''iron_ore (30.0/min)'')]"
proof -
  let ?p = "example_params 1 [''iron_ore'' \<mapsto> [''impure'', ''normal'']]"
  obtain fd where fd: "generateReactFlowData example_ext ?p = Some fd"
    and ends: "\<forall>r \<in> set (edges fd). source r \<in> node_id ` set (nodes fd) \<and>
                                     target r \<in> node_id ` set (nodes fd)"
    using edge_endpoints_exist [of example_ext ?p] by blast
  have a: "map_option (\<lambda>fd. list_all (\<lambda>r. source r \<in> node_id ` set (nodes fd) \<and>
                                     target r \<in> node_id ` set (nodes fd)) (edges fd))
     (generateReactFlowData example_ext ?p) = Some True"
    using ends by (simp add: fd list_all_iff)
  note pipeline = generateReactFlowData_def baseGraph_def validAmount_def example_ext_def example_params_def expandNode_def splitSource_def jsdiv_def nodeKey_def
          getOreSources_def getIndexes_def initialState_def example_rates_def
          example_excavator_def example_smelter_def example_edge_def show_nat_small digit_char_def
          distributeEdge_def pushPairs_def Let_def node_name_def
  have c: "map_option (\<lambda>fd. map node_id (nodes fd)) (generateReactFlowData example_ext ?p)
     = Some [''node_0'', ''node_1'', ''node_2'']"
    by (simp add: pipeline reactFlowNodes_ids upt_rec)
  have d: "map_option (\<lambda>fd. map (\<lambda>r. (source r, target r, label r)) (edges fd))
     (generateReactFlowData example_ext ?p)
     = Some [(''node_0'', ''node_2'', ''iron_ore (30.0/min)''),
             (''node_1'', ''node_2'', ''iron_ore (30.0/min)'')]"
    by (simp add: pipeline reactFlowEdges_def reactFlowEdge_def edgeId_def
        example_toFixed1_def floor_rat_numeral show_nat_large)
  show ?thesis using a c d by (intro conjI)
qed

subsection \<open>The qualities given to the provider\<close>

text \<open>
  C10 (as amended): for an item that has an entry in \<^verbatim>\<open>oreSourcesByItem\<close>, the
  quality given to the provider is the first element of its list, or \<open>normal\<close> when the
  list is empty; an item without an entry gets no entry in the mapping given to the
  provider. The base graph is the provider's answer to that mapping, so two configurations
  that agree on the first element of every list give the same base graph.
\<close>

theorem first_origin_quality:
  "(\<forall>sources. oreSourcesByItem p item = Some sources \<longrightarrow>
      oreQualityByItem (oreSourcesByItem p) item =
        Some (case sources of [] \<Rightarrow> normal | q # rest \<Rightarrow> q)) \<and>
   (oreSourcesByItem p item = None \<longrightarrow> oreQualityByItem (oreSourcesByItem p) item = None) \<and>
   baseGraph ext p =
     buildProductionFlow ext (targetItemId p) (validAmount (targetAmount p))
       (oreQualityByItem (oreSourcesByItem p)) (catalogue p) \<and>
   ((\<forall>i. map_option (take 1) (srcs' i) = map_option (take 1) (oreSourcesByItem p i)) \<longrightarrow>
      baseGraph ext (p\<lparr>oreSourcesByItem := srcs'\<rparr>) = baseGraph ext p)"
proof -
  have "(\<forall>i. map_option (take 1) (srcs' i) = map_option (take 1) (oreSourcesByItem p i)) \<Longrightarrow>
      baseGraph ext (p\<lparr>oreSourcesByItem := srcs'\<rparr>) = baseGraph ext p"
    using oreQualityByItem_take [of srcs' "oreSourcesByItem p"] by (simp add: baseGraph_def)
  then show ?thesis by (auto simp add: oreQualityByItem_def baseGraph_def)
qed

theorem first_origin_quality_witness:
  "oreQualityByItem (oreSourcesByItem (example_params 1 [''iron_ore'' \<mapsto> [''pure'', ''impure'']])) ''iron_ore''
     = Some ''pure'' \<and>
   oreQualityByItem (oreSourcesByItem (example_params 1 [''iron_ore'' \<mapsto> []])) ''iron_ore''
     = Some ''normal'' \<and>
   baseGraph quality_ext ((example_params 1 [''iron_ore'' \<mapsto> [''pure'', ''impure'']])
       \<lparr>oreSourcesByItem := [''iron_ore'' \<mapsto> [''pure'', ''normal'', ''depleted'']]\<rparr>)
     = baseGraph quality_ext (example_params 1 [''iron_ore'' \<mapsto> [''pure'', ''impure'']]) \<and>
   map outputAmount (fst (baseGraph quality_ext (example_params 1 [''iron_ore'' \<mapsto> [''pure'', ''impure'']])))
     = [20]"
proof -
  have a: "baseGraph quality_ext ((example_params 1 [''iron_ore'' \<mapsto> [''pure'', ''impure'']])
       \<lparr>oreSourcesByItem := [''iron_ore'' \<mapsto> [''pure'', ''normal'', ''depleted'']]\<rparr>)
     = baseGraph quality_ext (example_params 1 [''iron_ore'' \<mapsto> [''pure'', ''impure'']])"
    using first_origin_quality [of "example_params 1 [''iron_ore'' \<mapsto> [''pure'', ''impure'']]"
           "''iron_ore''" quality_ext "[''iron_ore'' \<mapsto> [''pure'', ''normal'', ''depleted'']]"]
    by (simp add: example_params_def)
  have b: "oreQualityByItem (oreSourcesByItem (example_params 1 [''iron_ore'' \<mapsto> []])) ''iron_ore''
     = Some ''normal''"
    using first_origin_quality [of "example_params 1 [''iron_ore'' \<mapsto> []]" "''iron_ore''" quality_ext
           "[''iron_ore'' \<mapsto> []]"]
    by (simp add: example_params_def normal_def)
  have c: "oreQualityByItem (oreSourcesByItem (example_params 1 [''iron_ore'' \<mapsto> [''pure'', ''impure'']])) ''iron_ore''
     = Some ''pure''"
    by (simp add: example_params_def oreQualityByItem_def)
  have d: "map outputAmount (fst (baseGraph quality_ext (example_params 1 [''iron_ore'' \<mapsto> [''pure'', ''impure'']])))
     = [20]"
    by (simp add: baseGraph_def quality_ext_def example_ext_def example_params_def
          oreQualityByItem_def example_rates_def example_excavator_def)
  show ?thesis using a b c d by (intro conjI)
qed

text \<open>
  For an item without an entry the splitting falls back to the single source \<open>normal\<close>,
  but the mapping given to the provider has no entry for it.
\<close>

theorem first_origin_quality_counterexample:
  "oreSourcesByItem (example_params 1 Map.empty) ''iron_ore'' = None \<and>
   getOreSources (oreSourcesByItem (example_params 1 Map.empty)) ''iron_ore'' = [normal] \<and>
   oreQualityByItem (oreSourcesByItem (example_params 1 Map.empty)) ''iron_ore'' = None \<and>
   oreQualityByItem (oreSourcesByItem (example_params 1 Map.empty)) ''iron_ore'' \<noteq> Some normal"
  by (simp add: example_params_def oreQualityByItem_def getOreSources_def)

end
